theory Spec2Isabelle
  imports Complex_Main "HOL-Library.Sublist" "HOL-Library.AList"
begin

section \<open>Python string primitives used by the handlers\<close>

text \<open>
  A Python \<open>str\<close> is modelled as a \<open>string\<close>, one \<open>char\<close> per code point; the
  model covers code points below 256. \<open>is_space\<close> is the part of
  \<open>str.isspace\<close> in that range: it is the set that \<open>str.strip()\<close> trims and that
  the regular expression class \<open>\s\<close> matches.
\<close>

definition NL :: char where
  "NL = CHR 0x0A"

definition CR :: char where
  "CR = CHR 0x0D"

definition is_space :: "char \<Rightarrow> bool" where
  "is_space c \<longleftrightarrow>
     (of_char c :: nat) \<in> {0x09, 0x0A, 0x0B, 0x0C, 0x0D, 0x1C, 0x1D, 0x1E, 0x1F, 0x20, 0x85, 0xA0}"

definition strip :: "string \<Rightarrow> string" where
  \<comment> \<open>\<open>s.strip()\<close>\<close>
  "strip s = rev (dropWhile is_space (rev (dropWhile is_space s)))"

fun substr_in :: "string \<Rightarrow> string \<Rightarrow> bool" where
  \<comment> \<open>\<open>sub in s\<close>\<close>
  "substr_in sub [] = (sub = [])"
| "substr_in sub (c # cs) = (prefix sub (c # cs) \<or> substr_in sub cs)"

function split_from :: "string \<Rightarrow> string \<Rightarrow> string \<Rightarrow> string list" where
  \<comment> \<open>the scan of \<open>s.split(sep)\<close>: \<open>cur\<close> is the piece read so far\<close>
  "split_from sep cur [] = [cur]"
| "split_from sep cur (c # cs) =
     (if prefix sep (c # cs) then cur # split_from sep [] (drop (length sep - 1) cs)
      else split_from sep (cur @ [c]) cs)"
  by pat_completeness auto
termination
  by (relation "measure (\<lambda>(sep, cur, s). length s)") auto

definition split :: "string \<Rightarrow> string \<Rightarrow> string list" where
  \<comment> \<open>\<open>s.split(sep)\<close> for a non-empty \<open>sep\<close> (every separator in the source is a
      non-empty literal; Python raises ValueError on an empty one)\<close>
  "split s sep = split_from sep [] s"

function replace :: "string \<Rightarrow> string \<Rightarrow> string \<Rightarrow> string" where
  \<comment> \<open>\<open>s.replace(old, new)\<close> for a non-empty \<open>old\<close>, written \<open>replace old new s\<close>\<close>
  "replace old new [] = []"
| "replace old new (c # cs) =
     (if prefix old (c # cs) then new @ replace old new (drop (length old - 1) cs)
      else c # replace old new cs)"
  by pat_completeness auto
termination
  by (relation "measure (\<lambda>(old, new, s). length s)") auto

section \<open>Response cleaning (main.py and sampleSummary.py, \<open>clean_response\<close>)\<close>

fun tag_at :: "string \<Rightarrow> bool" where
  \<comment> \<open>the pattern \<open><[^>]+>\<close> matches at the start of the string\<close>
  "tag_at [] = False"
| "tag_at (c # cs) =
     (c = CHR ''<'' \<and> (case cs of [] \<Rightarrow> False | d # _ \<Rightarrow> d \<noteq> CHR ''>'')
        \<and> CHR ''>'' \<in> set cs)"

fun has_tag :: "string \<Rightarrow> bool" where
  \<comment> \<open>the pattern \<open><[^>]+>\<close> matches somewhere in the string\<close>
  "has_tag [] = False"
| "has_tag (c # cs) = (tag_at (c # cs) \<or> has_tag cs)"

function remove_tags :: "string \<Rightarrow> string" where
  \<comment> \<open>\<open>re.sub(r'<[^>]+>', '', content)\<close>: a match runs to the first \<open>>\<close>
      after its \<open><\<close>, and the scan goes on behind it\<close>
  "remove_tags [] = []"
| "remove_tags (c # cs) =
     (if tag_at (c # cs) then remove_tags (tl (dropWhile (\<lambda>x. x \<noteq> CHR ''>'') cs))
      else c # remove_tags cs)"
  by pat_completeness auto
termination
  by (relation "measure length")
    (auto simp: less_Suc_eq_le intro: le_trans [OF diff_le_self length_dropWhile_le])

definition after_think :: "string \<Rightarrow> string" where
  \<comment> \<open>\<open>if '<think>' in content: content = content.split('<think>')[-1]\<close>\<close>
  "after_think content =
     (if substr_in ''<think>'' content then last (split content ''<think>'') else content)"

definition clean_response :: "string \<Rightarrow> string" where
  "clean_response content =
     strip (replace [CR, NL] [NL] (remove_tags (after_think content)))"


section \<open>Values exchanged with the completion API\<close>

text \<open>
  What \<open>response.json()\<close> returns: dictionaries keep their (distinct) keys in order,
  numbers are rationals.
\<close>

datatype json =
    JNull
  | JBool bool
  | JNum rat
  | JStr string
  | JList "json list"
  | JDict "(string \<times> json) list"

text \<open>
  Exceptions raised by the interpreter on a JSON value, each with the operand it was
  raised for, and the exceptions that reach the handler from \<open>requests\<close>, each with
  its \<open>str(e)\<close>. \<open>Timeout connect m\<close> is a \<open>requests.exceptions.Timeout\<close>;
  \<open>connect\<close> tells whether it is a \<open>ConnectTimeout\<close>.
\<close>

datatype pyexc =
    TypeError json
  | KeyError json
  | IndexError json
  | AttributeError json

datatype exn =
    Timeout bool string
  | RetryError string
  | OtherException string
  | Interp pyexc

record response =
  status_code :: int
  resp_text :: string
  resp_json :: "exn + json"

record EmailRequest =
  subject :: string
  sender :: string
  recipient :: string
  body :: string

record APIResponse =
  summary :: string
  status :: string
  risk_assessment :: string
  error :: "string option"
  link_scan_results :: "(string \<times> string) list option"

text \<open>
  The surroundings of a handler: the optional \<open>validators\<close> module (its \<open>url\<close>
  check), what \<open>session.post\<close> does with a payload (URL, headers and timeouts are
  constants of the source), and the interpreter's message for its own exceptions.
\<close>

record env =
  validators :: "(string \<Rightarrow> bool) option"
  post :: "json \<Rightarrow> exn + response"
  exc_text :: "pyexc \<Rightarrow> string"

definition str_exn :: "env \<Rightarrow> exn \<Rightarrow> string" where
  \<comment> \<open>\<open>str(e)\<close>\<close>
  "str_exn E e =
     (case e of Timeout _ m \<Rightarrow> m | RetryError m \<Rightarrow> m | OtherException m \<Rightarrow> m
      | Interp p \<Rightarrow> exc_text E p)"

function str_nat :: "nat \<Rightarrow> string" where
  "str_nat n =
     (if n < 10 then [char_of (48 + n)] else str_nat (n div 10) @ [char_of (48 + n mod 10)])"
  by pat_completeness auto
termination
  by (relation "measure id") auto

declare str_nat.simps [simp del]

definition str_int :: "int \<Rightarrow> string" where
  \<comment> \<open>the decimal text an f-string gives an \<open>int\<close>\<close>
  "str_int i = (if i < 0 then CHR ''-'' # str_nat (nat (- i)) else str_nat (nat i))"

subsection \<open>Python operations on JSON values\<close>

definition py_in :: "string \<Rightarrow> json \<Rightarrow> pyexc + bool" where
  \<comment> \<open>\<open>key in x\<close> for a \<open>str\<close> key\<close>
  "py_in key x =
     (case x of
        JDict kvs \<Rightarrow> Inr (key \<in> set (map fst kvs))
      | JStr s \<Rightarrow> Inr (substr_in key s)
      | JList xs \<Rightarrow> Inr (JStr key \<in> set xs)
      | _ \<Rightarrow> Inl (TypeError x))"

definition getitem :: "json \<Rightarrow> string \<Rightarrow> pyexc + json" where
  \<comment> \<open>\<open>x[key]\<close> for a \<open>str\<close> key\<close>
  "getitem x key =
     (case x of
        JDict kvs \<Rightarrow> (case map_of kvs key of Some v \<Rightarrow> Inr v | None \<Rightarrow> Inl (KeyError (JStr key)))
      | _ \<Rightarrow> Inl (TypeError x))"

definition getitem0 :: "json \<Rightarrow> pyexc + json" where
  \<comment> \<open>\<open>x[0]\<close>\<close>
  "getitem0 x =
     (case x of
        JList xs \<Rightarrow> (case xs of [] \<Rightarrow> Inl (IndexError x) | y # _ \<Rightarrow> Inr y)
      | JStr s \<Rightarrow> (case s of [] \<Rightarrow> Inl (IndexError x) | c # _ \<Rightarrow> Inr (JStr [c]))
      | JDict kvs \<Rightarrow> Inl (KeyError (JNum 0))
      | _ \<Rightarrow> Inl (TypeError x))"

definition py_strip :: "json \<Rightarrow> pyexc + string" where
  \<comment> \<open>\<open>x.strip()\<close>\<close>
  "py_strip x = (case x of JStr s \<Rightarrow> Inr (strip s) | _ \<Rightarrow> Inl (AttributeError x))"

definition get_content :: "json \<Rightarrow> pyexc + string" where
  \<comment> \<open>\<open>result["choices"][0]["message"]["content"].strip()\<close>\<close>
  "get_content result =
     (case getitem result ''choices'' of Inl e \<Rightarrow> Inl e | Inr choices \<Rightarrow>
      case getitem0 choices of Inl e \<Rightarrow> Inl e | Inr choice \<Rightarrow>
      case getitem choice ''message'' of Inl e \<Rightarrow> Inl e | Inr message \<Rightarrow>
      case getitem message ''content'' of Inl e \<Rightarrow> Inl e | Inr content \<Rightarrow>
      py_strip content)"


section \<open>main.py: payload, envelope check, link scan\<close>

definition MODEL_NAME :: string where
  "MODEL_NAME = ''gpt-3.5-turbo''"

definition system_prompt :: string where
  "system_prompt =
     ''You are an email security analyzer. Analyze emails and respond EXACTLY in this format with no additional text:''
     @ [NL] @ ''SUMMARY: Brief one-line description of email content''
     @ [NL] @ ''RISK_LEVEL: LOW|MEDIUM|HIGH''
     @ [NL] @ ''RISK_DETAILS: One-sentence explanation of risk assessment''"

definition user_prompt :: "EmailRequest \<Rightarrow> string" where
  "user_prompt email =
     ''Analyze this email based on:''
     @ [NL] @ ''- Sender domain legitimacy''
     @ [NL] @ ''- Urgency/pressure tactics''
     @ [NL] @ ''- Unusual requests''
     @ [NL] @ ''- Links/attachments''
     @ [NL] @ ''- Financial/credential requests''
     @ [NL]
     @ [NL] @ ''Email details:''
     @ [NL] @ ''SUBJECT: '' @ subject email
     @ [NL] @ ''FROM: '' @ sender email
     @ [NL] @ ''TO: '' @ recipient email
     @ [NL] @ ''BODY: '' @ body email"

definition build_payload :: "EmailRequest \<Rightarrow> json" where
  \<comment> \<open>the dictionary \<open>data\<close>\<close>
  "build_payload email =
     JDict [(''model'', JStr MODEL_NAME),
            (''messages'',
               JList [JDict [(''role'', JStr ''system''), (''content'', JStr system_prompt)],
                      JDict [(''role'', JStr ''user''), (''content'', JStr (user_prompt email))]]),
            (''temperature'', JNum (3 / 10)),
            (''max_tokens'', JNum 150)]"

definition is_dict :: "json \<Rightarrow> bool" where
  "is_dict x = (case x of JDict _ \<Rightarrow> True | _ \<Rightarrow> False)"

definition has_role_and_content :: "json \<Rightarrow> bool" where
  \<comment> \<open>\<open>"role" in msg and "content" in msg\<close> on a dictionary\<close>
  "has_role_and_content msg =
     (case msg of JDict kvs \<Rightarrow> ''role'' \<in> set (map fst kvs) \<and> ''content'' \<in> set (map fst kvs)
      | _ \<Rightarrow> False)"

definition validate_payload :: "json \<Rightarrow> bool" where
  "validate_payload data =
     (case data of
        JDict kvs \<Rightarrow>
          if ''model'' \<notin> set (map fst kvs) \<or> ''messages'' \<notin> set (map fst kvs) then False
          else (case map_of kvs ''messages'' of
                  Some (JList messages) \<Rightarrow>
                    if \<not> list_all is_dict messages then False
                    else list_all has_role_and_content messages
                | _ \<Rightarrow> False)
      | _ \<Rightarrow> False)"

definition validate_response :: "json \<Rightarrow> pyexc + string option" where
  \<comment> \<open>\<open>Inr None\<close>: the envelope is accepted; \<open>Inr (Some m)\<close>: the message returned;
      \<open>Inl\<close>: the exception a test on a value of the wrong type raises\<close>
  "validate_response response =
     (case response of
        JDict kvs \<Rightarrow>
          (case map_of kvs ''choices'' of
             Some (JList choices) \<Rightarrow>
               (case choices of
                  [] \<Rightarrow> Inr (Some ''The 'choices' list is empty.'')
                | choice # _ \<Rightarrow>
                    (case py_in ''message'' choice of
                       Inl e \<Rightarrow> Inl e
                     | Inr False \<Rightarrow>
                         Inr (Some ''The first choice must contain a 'message' field with 'content'.'')
                     | Inr True \<Rightarrow>
                         (case getitem choice ''message'' of
                            Inl e \<Rightarrow> Inl e
                          | Inr message \<Rightarrow>
                              (case py_in ''content'' message of
                                 Inl e \<Rightarrow> Inl e
                               | Inr False \<Rightarrow>
                                   Inr (Some ''The first choice must contain a 'message' field with 'content'.'')
                               | Inr True \<Rightarrow> Inr None))))
           | _ \<Rightarrow> Inr (Some ''Response must contain a 'choices' field with a list.''))
      | _ \<Rightarrow> Inr (Some ''Response must be a dictionary.''))"

definition url_match :: "string \<Rightarrow> nat option" where
  \<comment> \<open>the length of the match of \<open>https?://\S+\<close> at the start of the string, if any\<close>
  "url_match s =
     (let non_space_at = (\<lambda>k. case drop k s of [] \<Rightarrow> False | c # _ \<Rightarrow> \<not> is_space c);
          run = (\<lambda>k. k + length (takeWhile (\<lambda>c. \<not> is_space c) (drop k s)))
      in if prefix ''https://'' s \<and> non_space_at 8 then Some (run 8)
         else if prefix ''http://'' s \<and> non_space_at 7 then Some (run 7)
         else None)"

function extract_links :: "string \<Rightarrow> string list" where
  \<comment> \<open>\<open>re.findall(r'(https?://\S+)', body)\<close>\<close>
  "extract_links [] = []"
| "extract_links (c # cs) =
     (case url_match (c # cs) of
        Some n \<Rightarrow> take n (c # cs) # extract_links (drop (n - 1) cs)
      | None \<Rightarrow> extract_links cs)"
  by pat_completeness auto
termination
  by (relation "measure length") auto

definition scan_link :: "(string \<Rightarrow> bool) option \<Rightarrow> string \<Rightarrow> string" where
  "scan_link vals link =
     (case vals of
        Some url \<Rightarrow> if url link then ''SAFE'' else ''INVALID''
      | None \<Rightarrow> ''UNKNOWN'')"

definition scan_links :: "(string \<Rightarrow> bool) option \<Rightarrow> string list \<Rightarrow> (string \<times> string) list" where
  \<comment> \<open>the dictionary \<open>scanned_results\<close>, in insertion order\<close>
  "scan_links vals links =
     fold (\<lambda>link scanned_results. AList.update link (scan_link vals link) scanned_results) links []"

section \<open>Parsing the reply (main.py and sampleSummary.py, the same text in both)\<close>

definition required_fields :: "string list" where
  "required_fields = [''SUMMARY:'', ''RISK_LEVEL:'', ''RISK_DETAILS:'']"

definition has_required_fields :: "string \<Rightarrow> bool" where
  \<comment> \<open>\<open>all(field in content for field in required_fields)\<close>\<close>
  "has_required_fields content = list_all (\<lambda>field. substr_in field content) required_fields"

definition content_lines :: "string \<Rightarrow> string list" where
  \<comment> \<open>\<open>[line.strip() for line in content.split('\n') if line.strip()]\<close>\<close>
  "content_lines content = map strip (filter (\<lambda>line. strip line \<noteq> []) (split content [NL]))"

definition initial_parsed_data :: "(string \<times> string) list" where
  "initial_parsed_data =
     [(''SUMMARY:'', ''No summary available''),
      (''RISK_LEVEL:'', ''UNKNOWN''),
      (''RISK_DETAILS:'', ''No details provided'')]"

definition parse_field :: "string \<Rightarrow> string \<Rightarrow> (string \<times> string) list \<Rightarrow> (string \<times> string) list" where
  \<comment> \<open>the body of the inner loop, for one \<open>line\<close> and one \<open>field\<close>\<close>
  "parse_field line field parsed_data =
     (if prefix field line
      then (let v = strip (replace field [] line)
            in if v \<noteq> [] then AList.update field v parsed_data else parsed_data)
      else parsed_data)"

definition parse_line :: "string \<Rightarrow> (string \<times> string) list \<Rightarrow> (string \<times> string) list" where
  \<comment> \<open>\<open>for field in parsed_data.keys(): ...\<close>\<close>
  "parse_line line parsed_data = fold (parse_field line) (map fst parsed_data) parsed_data"

definition parse_lines :: "string list \<Rightarrow> (string \<times> string) list" where
  \<comment> \<open>\<open>for line in lines: ...\<close> from the defaults\<close>
  "parse_lines lines = fold parse_line lines initial_parsed_data"

definition lookup :: "(string \<times> string) list \<Rightarrow> string \<Rightarrow> pyexc + string" where
  \<comment> \<open>\<open>parsed_data[key]\<close>\<close>
  "lookup parsed_data key =
     (case map_of parsed_data key of Some v \<Rightarrow> Inr v | None \<Rightarrow> Inl (KeyError (JStr key)))"

definition check_risk_level :: "string \<Rightarrow> string" where
  \<comment> \<open>\<open>if risk_level not in ["LOW", "MEDIUM", "HIGH", "UNKNOWN"]: risk_level = "UNKNOWN"\<close>\<close>
  "check_risk_level risk_level =
     (if risk_level \<notin> set [''LOW'', ''MEDIUM'', ''HIGH'', ''UNKNOWN''] then ''UNKNOWN''
      else risk_level)"

definition error_response :: "string \<Rightarrow> APIResponse" where
  "error_response message =
     \<lparr>summary = [], status = ''error'', risk_assessment = [], error = Some message,
      link_scan_results = None\<rparr>"

definition missing_fields_response :: APIResponse where
  "missing_fields_response =
     \<lparr>summary = ''Error: Invalid response format'', status = ''error'',
      risk_assessment = ''UNKNOWN - Response format error'',
      error = Some ''API response missing required fields'', link_scan_results = None\<rparr>"

definition parse_content :: "(string \<times> string) list option \<Rightarrow> string \<Rightarrow> pyexc + APIResponse" where
  \<comment> \<open>from the required-field check to the returned response; \<open>scanned\<close> is the
      \<open>link_scan_results\<close> argument of main.py, absent in sampleSummary.py\<close>
  "parse_content scanned content =
     (if \<not> has_required_fields content then Inr missing_fields_response
      else
        (let parsed_data = parse_lines (content_lines content) in
         case lookup parsed_data ''RISK_LEVEL:'' of Inl e \<Rightarrow> Inl e | Inr risk_level \<Rightarrow>
         case lookup parsed_data ''SUMMARY:'' of Inl e \<Rightarrow> Inl e | Inr summary_text \<Rightarrow>
         case lookup parsed_data ''RISK_DETAILS:'' of Inl e \<Rightarrow> Inl e | Inr details \<Rightarrow>
         Inr \<lparr>summary = summary_text, status = ''success'',
              risk_assessment = check_risk_level risk_level @ '' - '' @ details,
              error = None, link_scan_results = scanned\<rparr>))"


section \<open>main.py: the request handler \<open>summarize_email\<close>\<close>

definition request_failed :: "env \<Rightarrow> exn \<Rightarrow> APIResponse" where
  \<comment> \<open>\<open>except Exception as e\<close>\<close>
  "request_failed E e = error_response (''Request failed: '' @ str_exn E e)"

definition api_error :: "response \<Rightarrow> APIResponse" where
  \<comment> \<open>the branch of a status code other than 200\<close>
  "api_error r =
     error_response (''API Error: '' @ str_int (status_code r) @ '' - '' @ resp_text r)"

definition on_response :: "(string \<times> string) list \<Rightarrow> response \<Rightarrow> exn + APIResponse" where
  \<comment> \<open>the \<open>try\<close> body after \<open>session.post\<close> has returned; \<open>Inl\<close> is an exception
      raised in it\<close>
  "on_response scanned r =
     (if status_code r = 200 then
        (case resp_json r of Inl e \<Rightarrow> Inl e | Inr result \<Rightarrow>
         case validate_response result of Inl e \<Rightarrow> Inl (Interp e) | Inr verdict \<Rightarrow>
         if verdict \<noteq> None \<and> verdict \<noteq> Some [] then Inr (error_response (the verdict))
         else
           (case get_content result of Inl e \<Rightarrow> Inl (Interp e) | Inr raw_content \<Rightarrow>
            case parse_content (Some scanned) (clean_response raw_content) of
              Inl e \<Rightarrow> Inl (Interp e)
            | Inr answer \<Rightarrow> Inr answer))
      else Inr (api_error r))"

definition summarize_email :: "env \<Rightarrow> EmailRequest \<Rightarrow> json list \<times> APIResponse" where
  \<comment> \<open>the payloads sent to the completion API, in order, and the response returned\<close>
  "summarize_email E email =
     (let data = build_payload email in
      if \<not> validate_payload data then ([], error_response ''Invalid payload structure.'')
      else
        (let links = extract_links (body email);
             scanned = scan_links (validators E) links
         in ([data],
             case post E data of
               Inl e \<Rightarrow> request_failed E e
             | Inr r \<Rightarrow>
                 (case on_response scanned r of
                    Inl e \<Rightarrow> request_failed E e
                  | Inr answer \<Rightarrow> answer))))"

section \<open>sampleSummary.py: the request handler \<open>summarize_email\<close>\<close>

definition sample_system_prompt :: string where
  "sample_system_prompt =
     ''You are an email security analyzer. Analyze emails and respond EXACTLY in this format with no additional text:''
     @ [NL]
     @ [NL] @ ''SUMMARY: Brief one-line description of email content''
     @ [NL] @ ''RISK_LEVEL: LOW|MEDIUM|HIGH''
     @ [NL] @ ''RISK_DETAILS: One-sentence explanation of risk assessment''
     @ [NL]
     @ [NL] @ ''Assessment criteria:''
     @ [NL] @ ''- LOW: Standard business communication with no suspicious elements''
     @ [NL] @ ''- MEDIUM: Contains some unusual elements but no immediate threat''
     @ [NL] @ ''- HIGH: Contains multiple red flags or direct security threats''"

definition sample_payload :: "EmailRequest \<Rightarrow> json" where
  "sample_payload email =
     JDict [(''messages'',
               JList [JDict [(''role'', JStr ''system''), (''content'', JStr sample_system_prompt)],
                      JDict [(''role'', JStr ''user''), (''content'', JStr (user_prompt email))]]),
            (''model'', JStr ''deepseek-ai/deepseek-r1''),
            (''max_tokens'', JNum 150),
            (''temperature'', JNum (1 / 10))]"

definition empty_response :: APIResponse where
  "empty_response =
     \<lparr>summary = ''Error: Empty response'', status = ''error'',
      risk_assessment = ''UNKNOWN - Empty response'',
      error = Some ''API returned empty or invalid response'', link_scan_results = None\<rparr>"

definition sample_on_response :: "response \<Rightarrow> exn + APIResponse" where
  "sample_on_response r =
     (if status_code r = 200 then
        (case resp_json r of Inl e \<Rightarrow> Inl e | Inr result \<Rightarrow>
         case get_content result of Inl e \<Rightarrow> Inl (Interp e) | Inr raw_content \<Rightarrow>
         let content = clean_response raw_content in
         if content = [] then Inr empty_response
         else (case parse_content None content of
                 Inl e \<Rightarrow> Inl (Interp e)
               | Inr answer \<Rightarrow> Inr answer))
      else Inr (api_error r))"

definition sample_failed :: "env \<Rightarrow> exn \<Rightarrow> APIResponse" where
  \<comment> \<open>the three \<open>except\<close> clauses, in order\<close>
  "sample_failed E e =
     (case e of
        Timeout connect _ \<Rightarrow>
          error_response
            ((if connect then ''Connection'' else ''Read'') @ '' timeout occurred. Please try again.'')
      | RetryError _ \<Rightarrow>
          error_response ''Service temporarily unavailable. Please try again later.''
      | _ \<Rightarrow> error_response (''Request failed: '' @ str_exn E e))"

definition sample_summarize_email :: "env \<Rightarrow> EmailRequest \<Rightarrow> json list \<times> APIResponse" where
  "sample_summarize_email E email =
     (let data = sample_payload email
      in ([data],
          case post E data of
            Inl e \<Rightarrow> sample_failed E e
          | Inr r \<Rightarrow>
              (case sample_on_response r of
                 Inl e \<Rightarrow> sample_failed E e
               | Inr answer \<Rightarrow> answer)))"

section \<open>app.py: the button handler\<close>

definition button_handler ::
  "(EmailRequest \<Rightarrow> 'c list \<times> 'r) \<Rightarrow> string \<Rightarrow> string \<Rightarrow> string \<Rightarrow> string \<Rightarrow> 'c list \<times> (string + 'r)" where
  \<comment> \<open>\<open>if not all([subject, sender, recipient, body]): st.error(...)\<close>, else the call
      of \<open>summarize_email\<close>; the argument \<open>call\<close> stands for that function and
      returns the requests it issued with its result. \<open>Inl\<close> is the text shown by
      \<open>st.error\<close>.\<close>
  "button_handler call subject_in sender_in recipient_in body_in =
     (if \<not> list_all (\<lambda>field. field \<noteq> []) [subject_in, sender_in, recipient_in, body_in]
      then ([], Inl ''Please fill in all fields'')
      else
        (let (calls, result) =
               call \<lparr>subject = subject_in, sender = sender_in, recipient = recipient_in,
                     body = body_in\<rparr>
         in (calls, Inr result)))"


section \<open>The field rule in the specification's words\<close>

definition spec_field_matches :: "string \<Rightarrow> string list \<Rightarrow> string list" where
  \<comment> \<open>the non-empty remainders of the lines that start with the marker, in line order\<close>
  "spec_field_matches field lines =
     filter (\<lambda>v. v \<noteq> []) (map (\<lambda>line. strip (replace field [] line)) (filter (prefix field) lines))"

definition spec_final_value :: "string \<Rightarrow> string \<Rightarrow> string list \<Rightarrow> string" where
  \<comment> \<open>the last non-empty match, or the default when there is none\<close>
  "spec_final_value field dflt lines =
     (if spec_field_matches field lines = [] then dflt else last (spec_field_matches field lines))"

section \<open>Example inputs\<close>

definition scenario_F :: string where
  "scenario_F = ''SUMMARY: '' @ [NL] @ ''RISK_LEVEL: LOW'' @ [NL] @ ''RISK_DETAILS: ok''"

definition crlf_reply :: string where
  \<comment> \<open>a reply with a reasoning block and Windows line endings\<close>
  "crlf_reply = ''<think>x</think>A'' @ [CR, NL] @ ''B'' @ [CR, CR, NL] @ ''C ''"

section \<open>Joining the pieces of a split\<close>

fun join :: "string \<Rightarrow> string list \<Rightarrow> string" where
  \<comment> \<open>\<open>sep.join(pieces)\<close>\<close>
  "join sep [] = []"
| "join sep [p] = p"
| "join sep (p # q # ps) = p @ sep @ join sep (q # ps)"

section \<open>The link scan in the specification's words\<close>

fun spec_first_occurrences :: "string list \<Rightarrow> string list" where
  \<comment> \<open>the distinct elements, each at the place of its first occurrence\<close>
  "spec_first_occurrences [] = []"
| "spec_first_occurrences (x # xs) = x # filter (\<lambda>y. y \<noteq> x) (spec_first_occurrences xs)"

definition spec_url_token :: "string \<Rightarrow> bool" where
  \<comment> \<open>\<open>http://\<close> or \<open>https://\<close> followed by one or more non-whitespace characters\<close>
  "spec_url_token t =
     list_ex (\<lambda>scheme. prefix scheme t \<and> drop (length scheme) t \<noteq> []
                \<and> list_all (\<lambda>c. \<not> is_space c) (drop (length scheme) t))
       [''http://'', ''https://'']"


definition spec_url_at :: "string \<Rightarrow> bool" where
  \<comment> \<open>the string begins with \<open>http://\<close> or \<open>https://\<close> and a non-whitespace character
      follows: the pattern matches at its first character\<close>
  "spec_url_at x =
     list_ex (\<lambda>scheme. prefix scheme x
                \<and> (case drop (length scheme) x of [] \<Rightarrow> False | c # _ \<Rightarrow> \<not> is_space c))
       [''http://'', ''https://'']"

section \<open>Example inputs for the link scan\<close>

definition scenario_D :: string where
  "scenario_D = ''Click http://example.com/pay now''"

definition dotted :: "string \<Rightarrow> bool" where
  \<comment> \<open>a stand-in for \<open>validators.url\<close>: accepts the strings that contain a dot\<close>
  "dotted link = (CHR ''.'' \<in> set link)"

definition two_links :: string where
  "two_links = ''http://ok.com https://bad http://ok.com''"

definition glued_link :: string where
  "glued_link = ''see(http://a.com) or xhttps://b.org''"

section \<open>Outcomes in the specification's words\<close>

definition is_error_outcome :: "APIResponse \<Rightarrow> bool" where
  \<comment> \<open>status \<open>error\<close> with a non-empty error message\<close>
  "is_error_outcome r =
     (status r = ''error'' \<and> (case error r of None \<Rightarrow> False | Some m \<Rightarrow> m \<noteq> []))"

definition success_response :: "(string \<times> string) list option \<Rightarrow> string \<Rightarrow> APIResponse" where
  \<comment> \<open>the response built from a content that has the three markers, with the fields
      taken by the rule of the specification\<close>
  "success_response scanned content =
     \<lparr>summary = spec_final_value ''SUMMARY:'' ''No summary available'' (content_lines content),
      status = ''success'',
      risk_assessment =
        check_risk_level (spec_final_value ''RISK_LEVEL:'' ''UNKNOWN'' (content_lines content))
        @ '' - ''
        @ spec_final_value ''RISK_DETAILS:'' ''No details provided'' (content_lines content),
      error = None, link_scan_results = scanned\<rparr>"

section \<open>Example surroundings and inquiries\<close>

definition reply_envelope :: "string \<Rightarrow> json" where
  \<comment> \<open>a completion whose first choice carries the content \<open>c\<close>\<close>
  "reply_envelope c =
     JDict [(''choices'',
               JList [JDict [(''message'',
                               JDict [(''role'', JStr ''assistant''), (''content'', JStr c)])]])]"

definition responding :: "response \<Rightarrow> env" where
  \<comment> \<open>no \<open>validators\<close> module; \<open>session.post\<close> returns the response \<open>r\<close>\<close>
  "responding r =
     \<lparr>validators = None, post = (\<lambda>data. Inr r), exc_text = (\<lambda>p. ''exception'')\<rparr>"

definition raising :: "exn \<Rightarrow> env" where
  \<comment> \<open>no \<open>validators\<close> module; \<open>session.post\<close> raises \<open>e\<close>\<close>
  "raising e =
     \<lparr>validators = None, post = (\<lambda>data. Inl e), exc_text = (\<lambda>p. ''exception'')\<rparr>"

definition ok_response :: "json \<Rightarrow> response" where
  "ok_response j = \<lparr>status_code = 200, resp_text = [], resp_json = Inr j\<rparr>"

definition answering :: "string \<Rightarrow> env" where
  \<comment> \<open>the API answers 200 with the content \<open>c\<close>\<close>
  "answering c = responding (ok_response (reply_envelope c))"

definition busy_response :: response where
  "busy_response =
     \<lparr>status_code = 503, resp_text = ''busy'', resp_json = Inl (OtherException ''no JSON'')\<rparr>"

definition garbled_response :: response where
  \<comment> \<open>status 200 with a body that is not JSON\<close>
  "garbled_response =
     \<lparr>status_code = 200, resp_text = ''<html>'',
      resp_json = Inl (OtherException ''Expecting value'')\<rparr>"

definition number_choice :: json where
  \<comment> \<open>the first choice is a number: the membership test on it raises\<close>
  "number_choice = JDict [(''choices'', JList [JNum 3])]"

definition no_choices :: json where
  "no_choices = JDict [(''choices'', JList [])]"

definition number_content :: json where
  \<comment> \<open>the content is a number: \<open>strip\<close> on it raises\<close>
  "number_content =
     JDict [(''choices'', JList [JDict [(''message'', JDict [(''content'', JNum 1)])]])]"

definition refused :: exn where
  "refused = OtherException ''Connection refused''"

definition read_timeout :: exn where
  "read_timeout = Timeout False ''Read timed out.''"

definition example_email :: EmailRequest where
  "example_email =
     \<lparr>subject = ''Invoice'', sender = ''a@example.com'', recipient = ''b@example.com'',
      body = ''Click http://example.com/pay now''\<rparr>"

definition blank_email :: EmailRequest where
  "blank_email = \<lparr>subject = [], sender = [], recipient = [], body = []\<rparr>"

section \<open>Example replies\<close>

definition scenario_C :: string where
  \<comment> \<open>a reply without the \<open>RISK_LEVEL:\<close> marker\<close>
  "scenario_C = ''SUMMARY: Invoice reminder'' @ [NL] @ ''RISK_DETAILS: Routine business email''"

definition scenario_lower :: string where
  \<comment> \<open>a reply whose risk level is not one of the four values\<close>
  "scenario_lower = ''SUMMARY: Hello'' @ [NL] @ ''RISK_LEVEL: low'' @ [NL] @ ''RISK_DETAILS: ok''"

definition scenario_A :: string where
  "scenario_A =
     ''SUMMARY: Invoice reminder'' @ [NL] @ ''RISK_LEVEL: LOW'' @ [NL]
     @ ''RISK_DETAILS: Routine business email''"

section \<open>Facts about the string primitives\<close>

lemma substr_in_iff: "substr_in sub s \<longleftrightarrow> sublist sub s"
  by (induction s) (auto simp: sublist_Cons_right)

lemma has_tag_suffix: "has_tag s \<longleftrightarrow> (\<exists>a r. s = a @ r \<and> tag_at r)"
proof (induction s)
  case Nil
  show ?case by simp
next
  case (Cons c cs)
  show ?case
  proof
    assume "has_tag (c # cs)"
    then consider "tag_at (c # cs)" | "has_tag cs" by auto
    then show "\<exists>a r. c # cs = a @ r \<and> tag_at r"
    proof cases
      case 1
      then have "c # cs = [] @ (c # cs) \<and> tag_at (c # cs)" by simp
      then show ?thesis by blast
    next
      case 2
      with Cons obtain a r where "cs = a @ r" "tag_at r" by blast
      then have "c # cs = (c # a) @ r \<and> tag_at r" by simp
      then show ?thesis by blast
    qed
  next
    assume "\<exists>a r. c # cs = a @ r \<and> tag_at r"
    then obtain a r where ar: "c # cs = a @ r" "tag_at r" by blast
    show "has_tag (c # cs)"
    proof (cases a)
      case Nil
      with ar have "tag_at (c # cs)" by simp
      then show ?thesis by simp
    next
      case (Cons x xs)
      with ar have "cs = xs @ r" by simp
      with ar Cons.IH have "has_tag cs" by blast
      then show ?thesis by simp
    qed
  qed
qed

lemma tag_at_iff:
  "tag_at s \<longleftrightarrow> (\<exists>t b. s = CHR ''<'' # t @ CHR ''>'' # b \<and> t \<noteq> [] \<and> CHR ''>'' \<notin> set t)"
proof
  assume "tag_at s"
  then obtain d ds where s: "s = CHR ''<'' # d # ds" and d: "d \<noteq> CHR ''>''"
    and m: "CHR ''>'' \<in> set (d # ds)"
    by (cases s) (auto split: list.splits)
  from m obtain t b where tb: "d # ds = t @ CHR ''>'' # b" "CHR ''>'' \<notin> set t"
    by (meson split_list_first)
  with d have "t \<noteq> []" by (cases t) auto
  with tb s show "\<exists>t b. s = CHR ''<'' # t @ CHR ''>'' # b \<and> t \<noteq> [] \<and> CHR ''>'' \<notin> set t"
    by auto
next
  assume "\<exists>t b. s = CHR ''<'' # t @ CHR ''>'' # b \<and> t \<noteq> [] \<and> CHR ''>'' \<notin> set t"
  then show "tag_at s" by (auto split: list.splits simp: neq_Nil_conv)
qed

lemma has_tag_iff:
  "has_tag s \<longleftrightarrow>
     (\<exists>a t b. s = a @ CHR ''<'' # t @ CHR ''>'' # b \<and> t \<noteq> [] \<and> CHR ''>'' \<notin> set t)"
  unfolding has_tag_suffix tag_at_iff by blast

lemma strip_trimmed:
  "strip s = [] \<or> (\<not> is_space (hd (strip s)) \<and> \<not> is_space (last (strip s)))"
proof (cases "strip s = []")
  case True
  then show ?thesis by simp
next
  case False
  define u where "u = dropWhile is_space s"
  define v where "v = dropWhile is_space (rev u)"
  have sv: "strip s = rev v" by (simp add: strip_def u_def v_def)
  with False have v: "v \<noteq> []" by simp
  then have "\<not> is_space (hd v)" unfolding v_def by (rule hd_dropWhile)
  then have l: "\<not> is_space (last (strip s))" using v sv by (simp add: last_rev)
  from v have u: "u \<noteq> []" by (auto simp: v_def)
  then have hu: "\<not> is_space (hd u)" unfolding u_def by (rule hd_dropWhile)
  from u have "\<not> is_space (last (rev u))" using hu by (simp add: last_rev)
  moreover from u have "last (rev u) \<in> set (rev u)" by (intro last_in_set) simp
  ultimately have "last v = last (rev u)" unfolding v_def by (intro dropWhile_last)
  then have "hd (rev v) = hd u" using v u by (simp add: hd_rev last_rev)
  with hu sv have "\<not> is_space (hd (strip s))" by simp
  with l show ?thesis by simp
qed

lemma overlap_length:
  assumes "sep \<noteq> []" and "hd sep \<notin> set (tl sep)"
    and "prefix sep (a @ sep @ b)" and "a \<noteq> []"
  shows "length sep \<le> length a"
proof (rule ccontr)
  assume "\<not> length sep \<le> length a"
  then have lt: "length a < length sep" by simp
  from assms(3) obtain zs where "a @ sep @ b = sep @ zs" by (auto simp: prefix_def)
  then have "(a @ sep @ b) ! length a = (sep @ zs) ! length a" by simp
  also have "\<dots> = sep ! length a" using lt by (simp add: nth_append)
  finally have "(a @ sep @ b) ! length a = sep ! length a" .
  moreover have "(a @ sep @ b) ! length a = hd sep"
    using assms(1) by (simp add: nth_append hd_conv_nth)
  moreover have "sep ! length a \<in> set (tl sep)"
  proof -
    from assms(4) obtain n where n: "length a = Suc n" by (cases a) auto
    with lt have "n < length (tl sep)" by simp
    then have "tl sep ! n \<in> set (tl sep)" by (rule nth_mem)
    moreover have "tl sep ! n = sep ! Suc n" using assms(1) by (cases sep) auto
    ultimately show ?thesis using n by simp
  qed
  ultimately show False using assms(2) by simp
qed

lemma split_from_not_Nil: "split_from sep cur s \<noteq> []"
  by (induction sep cur s rule: split_from.induct) auto

lemma split_from_match:
  "prefix sep (c # cs) \<Longrightarrow>
     split_from sep cur (c # cs) = cur # split_from sep [] (drop (length sep - 1) cs)"
  by simp

lemma split_from_no_sep: "\<not> sublist sep s \<Longrightarrow> split_from sep cur s = [cur @ s]"
proof (induction s arbitrary: cur)
  case Nil
  show ?case by simp
next
  case (Cons c cs)
  from Cons.prems have "\<not> prefix sep (c # cs)" by (auto dest: prefix_imp_sublist)
  moreover from Cons.prems have "\<not> sublist sep cs" by (simp add: sublist_Cons_right)
  ultimately show ?case using Cons.IH [of "cur @ [c]"] by simp
qed

lemma last_split_from:
  assumes "sep \<noteq> []" and "hd sep \<notin> set (tl sep)"
  shows "last (split_from sep cur (a @ sep @ b)) = last (split_from sep [] b)"
proof (induction a arbitrary: cur rule: length_induct)
  case (1 a)
  show ?case
  proof (cases a)
    case Nil
    from assms(1) obtain c cs where sep: "sep = c # cs" by (cases sep) auto
    then show ?thesis using Nil by (simp add: split_from_not_Nil)
  next
    case (Cons c a')
    show ?thesis
    proof (cases "prefix sep (a @ sep @ b)")
      case True
      with assms Cons have le: "length sep \<le> length a" by (intro overlap_length) auto
      define a'' where "a'' = drop (length sep) a"
      have "length a'' < length a" using assms(1) Cons by (simp add: a''_def)
      with 1 have ih: "last (split_from sep [] (a'' @ sep @ b)) = last (split_from sep [] b)"
        by blast
      define rest where "rest = a' @ sep @ b"
      have d: "drop (length sep - 1) rest = a'' @ sep @ b"
        using le assms(1) Cons by (cases sep) (auto simp: a''_def rest_def)
      have e: "a @ sep @ b = c # rest" using Cons by (simp add: rest_def)
      with True have "prefix sep (c # rest)" by simp
      then have "split_from sep cur (c # rest) =
          cur # split_from sep [] (drop (length sep - 1) rest)"
        by (rule split_from_match)
      with d e have "split_from sep cur (a @ sep @ b) = cur # split_from sep [] (a'' @ sep @ b)"
        by (simp only:)
      with ih show ?thesis by (simp add: split_from_not_Nil)
    next
      case False
      have "length a' < length a" using Cons by simp
      with 1 have "last (split_from sep (cur @ [c]) (a' @ sep @ b)) = last (split_from sep [] b)"
        by blast
      with False Cons show ?thesis by simp
    qed
  qed
qed

lemma after_think_last:
  assumes "\<not> sublist ''<think>'' b"
  shows "after_think (a @ ''<think>'' @ b) = b"
proof -
  have "sublist ''<think>'' (a @ ''<think>'' @ b)" by (rule sublist_appendI)
  moreover have "last (split_from ''<think>'' [] (a @ ''<think>'' @ b)) = last (split_from ''<think>'' [] b)"
    by (rule last_split_from) simp_all
  ultimately show ?thesis using assms
    by (simp add: after_think_def substr_in_iff split_def split_from_no_sep del: split_from.simps)
qed

lemma set_replace_crlf: "set (replace [CR, NL] [NL] s) \<subseteq> set s"
proof (induction s rule: length_induct)
  case (1 s)
  show ?case
  proof (cases s)
    case Nil
    then show ?thesis by simp
  next
    case (Cons c cs)
    show ?thesis
    proof (cases "prefix [CR, NL] (c # cs)")
      case True
      then obtain ds where cs: "cs = NL # ds" and c: "c = CR" by (cases cs) auto
      have "length ds < length s" using Cons cs by simp
      with 1 have "set (replace [CR, NL] [NL] ds) \<subseteq> set ds" by blast
      with Cons cs c show ?thesis by auto
    next
      case False
      have "length cs < length s" using Cons by simp
      with 1 have "set (replace [CR, NL] [NL] cs) \<subseteq> set cs" by blast
      with Cons False show ?thesis by auto
    qed
  qed
qed

lemma not_tag_at_replace_crlf:
  assumes "\<not> tag_at (c # cs)"
  shows "\<not> tag_at (c # replace [CR, NL] [NL] cs)"
proof (cases cs)
  case Nil
  then show ?thesis by simp
next
  case (Cons d ds)
  show ?thesis
  proof (cases "c = CHR ''<'' \<and> d \<noteq> CHR ''>''")
    case True
    with assms Cons have "CHR ''>'' \<notin> set cs" by simp
    with set_replace_crlf [of cs] have "CHR ''>'' \<notin> set (replace [CR, NL] [NL] cs)" by blast
    then show ?thesis by simp
  next
    case False
    with Cons show ?thesis by (auto simp: CR_def split: list.splits)
  qed
qed

lemma not_has_tag_replace_crlf:
  "\<not> has_tag s \<Longrightarrow> \<not> has_tag (replace [CR, NL] [NL] s)"
proof (induction s rule: length_induct)
  case (1 s)
  show ?case
  proof (cases s)
    case Nil
    then show ?thesis by simp
  next
    case (Cons c cs)
    show ?thesis
    proof (cases "prefix [CR, NL] (c # cs)")
      case True
      then obtain ds where cs: "cs = NL # ds" and c: "c = CR" by (cases cs) auto
      have "length ds < length s" using Cons cs by simp
      moreover have "\<not> has_tag ds" using "1.prems" Cons cs by simp
      ultimately have "\<not> has_tag (replace [CR, NL] [NL] ds)" using "1.IH" by blast
      moreover have "replace [CR, NL] [NL] s = NL # replace [CR, NL] [NL] ds"
        using Cons cs c by simp
      ultimately show ?thesis by (simp add: NL_def)
    next
      case False
      have "length cs < length s" using Cons by simp
      moreover have "\<not> has_tag cs" using "1.prems" Cons by simp
      ultimately have "\<not> has_tag (replace [CR, NL] [NL] cs)" using "1.IH" by blast
      moreover have "\<not> tag_at (c # replace [CR, NL] [NL] cs)"
        using "1.prems" Cons by (intro not_tag_at_replace_crlf) simp
      moreover have "replace [CR, NL] [NL] s = c # replace [CR, NL] [NL] cs"
        using Cons False by auto
      ultimately show ?thesis by (simp del: tag_at.simps)
    qed
  qed
qed

lemma has_tag_append_right: "has_tag s \<Longrightarrow> has_tag (s @ b)"
proof (induction s)
  case Nil
  then show ?case by simp
next
  case (Cons c cs)
  from Cons.prems consider "tag_at (c # cs)" | "has_tag cs" by auto
  then show ?case
  proof cases
    case 1
    then have "tag_at ((c # cs) @ b)" by (auto split: list.splits)
    then show ?thesis by simp
  next
    case 2
    with Cons.IH show ?thesis by simp
  qed
qed

lemma has_tag_append_left: "has_tag s \<Longrightarrow> has_tag (a @ s)"
  by (induction a) auto

lemma has_tag_sublist: "sublist s t \<Longrightarrow> has_tag s \<Longrightarrow> has_tag t"
  by (auto simp: sublist_def intro: has_tag_append_left has_tag_append_right)

lemma sublist_strip: "sublist (strip s) s"
  unfolding strip_def
  by (metis sublist_rev sublist_dropWhile rev_rev_ident sublist_order.dual_order.trans)

lemma set_remove_tags: "set (remove_tags s) \<subseteq> set s"
proof (induction s rule: remove_tags.induct)
  case 1
  show ?case by simp
next
  case (2 c cs)
  have "set (tl (dropWhile (\<lambda>x. x \<noteq> CHR ''>'') cs)) \<subseteq> set cs"
    by (metis list.sel(2) list.set_sel(2) set_dropWhileD subsetI)
  with 2 show ?case by auto
qed

lemma not_has_tag_remove_tags: "\<not> has_tag (remove_tags s)"
proof (induction s rule: remove_tags.induct)
  case 1
  show ?case by simp
next
  case (2 c cs)
  show ?case
  proof (cases "tag_at (c # cs)")
    case True
    with 2 show ?thesis by simp
  next
    case False
    have "\<not> tag_at (c # remove_tags cs)"
    proof (cases cs)
      case Nil
      then show ?thesis by simp
    next
      case (Cons d ds)
      show ?thesis
      proof (cases "c = CHR ''<'' \<and> d \<noteq> CHR ''>''")
        case True
        with False Cons have "CHR ''>'' \<notin> set cs" by simp
        with set_remove_tags [of cs] have "CHR ''>'' \<notin> set (remove_tags cs)" by blast
        then show ?thesis by simp
      next
        case False
        with Cons show ?thesis by (auto split: list.splits)
      qed
    qed
    with 2 False show ?thesis by simp
  qed
qed

lemma not_has_tag_clean_response: "\<not> has_tag (clean_response raw)"
proof -
  have "\<not> has_tag (replace [CR, NL] [NL] (remove_tags (after_think raw)))"
    by (intro not_has_tag_replace_crlf not_has_tag_remove_tags)
  then show ?thesis
    unfolding clean_response_def using has_tag_sublist [OF sublist_strip] by blast
qed


section \<open>Field extraction\<close>

lemma map_of_parse_field:
  "map_of (parse_field line field pd) f =
     (if f = field \<and> prefix field line \<and> strip (replace field [] line) \<noteq> []
      then Some (strip (replace field [] line)) else map_of pd f)"
  by (simp add: parse_field_def Let_def update_conv')

lemma keys_parse_field:
  "field \<in> set (map fst pd) \<Longrightarrow> map fst (parse_field line field pd) = map fst pd"
  by (simp add: parse_field_def Let_def update_keys)

lemma keys_fold_parse_field:
  "set ks \<subseteq> set (map fst pd) \<Longrightarrow> map fst (fold (parse_field line) ks pd) = map fst pd"
proof (induction ks arbitrary: pd)
  case Nil
  show ?case by simp
next
  case (Cons k ks)
  then have e: "map fst (parse_field line k pd) = map fst pd" by (intro keys_parse_field) simp
  from Cons.prems have "set ks \<subseteq> set (map fst pd)" by simp
  then have "set ks \<subseteq> set (map fst (parse_field line k pd))" by (simp only: e)
  then have "map fst (fold (parse_field line) ks (parse_field line k pd)) =
      map fst (parse_field line k pd)"
    by (rule Cons.IH)
  with e show ?case by simp
qed

lemma map_of_fold_parse_field:
  "map_of (fold (parse_field line) ks pd) f =
     (if f \<in> set ks \<and> prefix f line \<and> strip (replace f [] line) \<noteq> []
      then Some (strip (replace f [] line)) else map_of pd f)"
  by (induction ks arbitrary: pd) (auto simp: map_of_parse_field)

lemma keys_parse_line: "map fst (parse_line line pd) = map fst pd"
  unfolding parse_line_def by (rule keys_fold_parse_field) simp

lemma map_of_parse_line:
  "map_of (parse_line line pd) f =
     (if f \<in> set (map fst pd) \<and> prefix f line \<and> strip (replace f [] line) \<noteq> []
      then Some (strip (replace f [] line)) else map_of pd f)"
  unfolding parse_line_def by (rule map_of_fold_parse_field)

lemma keys_fold_parse_line: "map fst (fold parse_line lines pd) = map fst pd"
  by (induction lines arbitrary: pd) (simp_all add: keys_parse_line)

lemma map_of_fold_parse_line:
  "f \<in> set (map fst pd) \<Longrightarrow>
   map_of (fold parse_line lines pd) f =
     (if spec_field_matches f lines = [] then map_of pd f
      else Some (last (spec_field_matches f lines)))"
proof (induction lines arbitrary: pd)
  case Nil
  show ?case by (simp add: spec_field_matches_def)
next
  case (Cons l ls)
  from Cons.prems have "f \<in> set (map fst (parse_line l pd))" by (simp add: keys_parse_line)
  then have "map_of (fold parse_line ls (parse_line l pd)) f =
     (if spec_field_matches f ls = [] then map_of (parse_line l pd) f
      else Some (last (spec_field_matches f ls)))"
    by (rule Cons.IH)
  with Cons.prems show ?case
    by (auto simp: map_of_parse_line spec_field_matches_def)
qed

lemma lookup_parse_lines:
  assumes "(f, d) \<in> set initial_parsed_data"
  shows "lookup (parse_lines lines) f = Inr (spec_final_value f d lines)"
proof -
  from assms have k: "f \<in> set (map fst initial_parsed_data)" by force
  from assms have "map_of initial_parsed_data f = Some d"
    by (auto simp: initial_parsed_data_def)
  with map_of_fold_parse_line [OF k, of lines] show ?thesis
    by (simp add: lookup_def parse_lines_def spec_final_value_def)
qed

lemma content_lines_alt:
  "content_lines content = filter (\<lambda>l. l \<noteq> []) (map strip (split content [NL]))"
  by (simp add: content_lines_def filter_map comp_def)

text \<open>
  C1. For every cleaned content that passes the required-field check, the lines parsed
  are the non-empty trimmed lines of the content, and each of the three fields ends as
  the last non-empty remainder among the lines that start with its marker (the line with
  the marker removed by \<open>replace\<close>, then trimmed), or as its default when no such line
  has a non-empty remainder. For the content
  \<open>"SUMMARY: \nRISK_LEVEL: LOW\nRISK_DETAILS: ok"\<close> the summary is the default.
\<close>

theorem field_extraction:
  assumes "has_required_fields content"
  shows "content_lines content = filter (\<lambda>l. l \<noteq> []) (map strip (split content [NL]))
    \<and> lookup (parse_lines (content_lines content)) ''SUMMARY:'' =
        Inr (spec_final_value ''SUMMARY:'' ''No summary available'' (content_lines content))
    \<and> lookup (parse_lines (content_lines content)) ''RISK_LEVEL:'' =
        Inr (spec_final_value ''RISK_LEVEL:'' ''UNKNOWN'' (content_lines content))
    \<and> lookup (parse_lines (content_lines content)) ''RISK_DETAILS:'' =
        Inr (spec_final_value ''RISK_DETAILS:'' ''No details provided'' (content_lines content))
    \<and> lookup (parse_lines (content_lines scenario_F)) ''SUMMARY:'' = Inr ''No summary available''"
proof -
  have "content_lines scenario_F = [''SUMMARY:'', ''RISK_LEVEL: LOW'', ''RISK_DETAILS: ok'']"
    by (simp add: content_lines_def scenario_F_def split_def strip_def is_space_def NL_def)
  moreover have "spec_final_value ''SUMMARY:'' ''No summary available''
      [''SUMMARY:'', ''RISK_LEVEL: LOW'', ''RISK_DETAILS: ok''] = ''No summary available''"
    by (simp add: spec_final_value_def spec_field_matches_def strip_def)
  ultimately show ?thesis
    by (simp add: content_lines_alt lookup_parse_lines initial_parsed_data_def)
qed

theorem field_extraction_witness:
  "has_required_fields scenario_F
   \<and> content_lines scenario_F = [''SUMMARY:'', ''RISK_LEVEL: LOW'', ''RISK_DETAILS: ok'']
   \<and> lookup (parse_lines (content_lines scenario_F)) ''RISK_LEVEL:'' = Inr ''LOW''
   \<and> lookup (parse_lines (content_lines scenario_F)) ''RISK_DETAILS:'' = Inr ''ok''"
proof -
  have h: "has_required_fields scenario_F"
    by (simp add: has_required_fields_def required_fields_def scenario_F_def NL_def)
  have l: "filter (\<lambda>l. l \<noteq> []) (map strip (split scenario_F [NL])) =
      [''SUMMARY:'', ''RISK_LEVEL: LOW'', ''RISK_DETAILS: ok'']"
    by (simp add: scenario_F_def split_def strip_def is_space_def NL_def)
  have v1: "spec_final_value ''RISK_LEVEL:'' ''UNKNOWN''
      [''SUMMARY:'', ''RISK_LEVEL: LOW'', ''RISK_DETAILS: ok''] = ''LOW''"
    by (simp add: spec_final_value_def spec_field_matches_def strip_def is_space_def)
  have v2: "spec_final_value ''RISK_DETAILS:'' ''No details provided''
      [''SUMMARY:'', ''RISK_LEVEL: LOW'', ''RISK_DETAILS: ok''] = ''ok''"
    by (simp add: spec_final_value_def spec_field_matches_def strip_def is_space_def)
  note t = field_extraction [OF h]
  from t l have cl: "content_lines scenario_F =
      [''SUMMARY:'', ''RISK_LEVEL: LOW'', ''RISK_DETAILS: ok'']"
    by (simp only:)
  from t have "lookup (parse_lines (content_lines scenario_F)) ''RISK_LEVEL:'' =
      Inr (spec_final_value ''RISK_LEVEL:'' ''UNKNOWN'' (content_lines scenario_F))"
    by (rule conjunct1 [OF conjunct2 [OF conjunct2]])
  then have r1: "lookup (parse_lines (content_lines scenario_F)) ''RISK_LEVEL:'' = Inr ''LOW''"
    by (simp only: cl v1)
  from t have "lookup (parse_lines (content_lines scenario_F)) ''RISK_DETAILS:'' =
      Inr (spec_final_value ''RISK_DETAILS:'' ''No details provided'' (content_lines scenario_F))"
    by (rule conjunct1 [OF conjunct2 [OF conjunct2 [OF conjunct2]]])
  then have r2: "lookup (parse_lines (content_lines scenario_F)) ''RISK_DETAILS:'' = Inr ''ok''"
    by (simp only: cl v2)
  from h cl r1 r2 show ?thesis by (intro conjI)
qed

section \<open>Splitting, joining and replacing\<close>

lemma join_Cons: "ps \<noteq> [] \<Longrightarrow> join sep (p # ps) = p @ sep @ join sep ps"
  by (cases ps) simp_all

lemma join_split_from_replace:
  "join new (split_from old cur s) = cur @ replace old new s"
proof (induction old cur s rule: split_from.induct)
  case (1 sep cur)
  show ?case by simp
next
  case (2 sep cur c cs)
  show ?case
  proof (cases "prefix sep (c # cs)")
    case True
    with 2 have "join new (split_from sep [] (drop (length sep - 1) cs)) =
        replace sep new (drop (length sep - 1) cs)"
      by simp
    with True show ?thesis by (simp add: join_Cons split_from_not_Nil)
  next
    case False
    with 2 show ?thesis by simp
  qed
qed

lemma prefix_drop_tail:
  assumes "sep \<noteq> []" and "prefix sep (c # cs)"
  shows "c # cs = sep @ drop (length sep - 1) cs"
proof -
  from assms(2) obtain zs where z: "c # cs = sep @ zs" by (auto simp: prefix_def)
  with assms(1) obtain ss where "sep = c # ss" by (cases sep) auto
  with z show ?thesis by simp
qed

lemma join_split_from: "sep \<noteq> [] \<Longrightarrow> join sep (split_from sep cur s) = cur @ s"
proof (induction sep cur s rule: split_from.induct)
  case (1 sep cur)
  show ?case by simp
next
  case (2 sep cur c cs)
  show ?case
  proof (cases "prefix sep (c # cs)")
    case True
    with 2 have "join sep (split_from sep [] (drop (length sep - 1) cs)) =
        drop (length sep - 1) cs"
      by simp
    moreover from "2.prems" True have "c # cs = sep @ drop (length sep - 1) cs"
      by (rule prefix_drop_tail)
    ultimately have "cur @ sep @ join sep (split_from sep [] (drop (length sep - 1) cs)) =
        cur @ c # cs"
      by simp
    with True show ?thesis by (simp add: join_Cons split_from_not_Nil)
  next
    case False
    with 2 show ?thesis by simp
  qed
qed

lemma split_from_pieces:
  "sep \<noteq> [] \<Longrightarrow> (\<And>u v. cur = u @ v \<Longrightarrow> v \<noteq> [] \<Longrightarrow> \<not> prefix sep (v @ s)) \<Longrightarrow>
   p \<in> set (split_from sep cur s) \<Longrightarrow> \<not> sublist sep p"
proof (induction sep cur s rule: split_from.induct)
  case (1 sep cur)
  then have p: "p = cur" by simp
  show ?case
  proof
    assume "sublist sep p"
    with p obtain u w where "cur = u @ sep @ w" by (auto simp: sublist_def)
    moreover from "1.prems"(1) have "sep @ w \<noteq> []" by simp
    ultimately have "\<not> prefix sep ((sep @ w) @ [])" by (rule "1.prems"(2))
    then show False by simp
  qed
next
  case (2 sep cur c cs)
  have cur: "\<not> sublist sep cur"
  proof
    assume "sublist sep cur"
    then obtain u w where "cur = u @ sep @ w" by (auto simp: sublist_def)
    moreover from "2.prems"(1) have "sep @ w \<noteq> []" by simp
    ultimately have "\<not> prefix sep ((sep @ w) @ c # cs)" by (rule "2.prems"(2))
    then show False by simp
  qed
  show ?case
  proof (cases "prefix sep (c # cs)")
    case True
    with "2.prems"(3) consider "p = cur"
      | "p \<in> set (split_from sep [] (drop (length sep - 1) cs))" by auto
    then show ?thesis
    proof cases
      case 1
      with cur show ?thesis by simp
    next
      case 2
      with True "2.prems"(1) show ?thesis by (intro "2.IH"(1)) auto
    qed
  next
    case False
    have inv: "\<not> prefix sep (v @ cs)" if "cur @ [c] = u @ v" and "v \<noteq> []" for u v
    proof (cases "butlast v = []")
      case True
      with that have "v = [c]"
        by (metis append_butlast_last_id last_appendR last_snoc self_append_conv2)
      with False show ?thesis by simp
    next
      case False
      from that have v: "v = butlast v @ [c]"
        by (metis append_butlast_last_id last_appendR last_snoc)
      with that have "cur = u @ butlast v"
        by (metis append_assoc butlast_snoc)
      then have "\<not> prefix sep (butlast v @ c # cs)" using False by (rule "2.prems"(2))
      with v show ?thesis by (metis append_Cons append_Nil append_assoc)
    qed
    from False "2.prems"(3) have "p \<in> set (split_from sep (cur @ [c]) cs)" by simp
    with False "2.prems"(1) inv show ?thesis by (intro "2.IH"(2)) auto
  qed
qed

lemma split_pieces: "sep \<noteq> [] \<Longrightarrow> p \<in> set (split s sep) \<Longrightarrow> \<not> sublist sep p"
  unfolding split_def by (rule split_from_pieces) auto

section \<open>Removal of the marker from a line\<close>

lemma join_Nil: "join [] ps = concat ps"
  by (induction "[] :: string" ps rule: join.induct) simp_all

text \<open>
  C10. For every line that starts with one of the three markers, the value recorded for
  that field is the line with every occurrence of the marker removed, trimmed: the line
  is its pieces joined by the marker, no piece contains the marker, and the value is the
  trimmed concatenation of the pieces (recorded when it is not empty). The line
  \<open>SUMMARY: see SUMMARY: above\<close> records \<open>see  above\<close>.
\<close>

theorem marker_removed_everywhere:
  assumes "field \<in> set required_fields"
    and "field \<in> set (map fst parsed_data)"
    and "prefix field line"
  shows "line = join field (split line field)
     \<and> (\<forall>p \<in> set (split line field). \<not> sublist field p)
     \<and> replace field [] line = concat (split line field)
     \<and> map_of (parse_line line parsed_data) field =
         (if strip (concat (split line field)) = [] then map_of parsed_data field
          else Some (strip (concat (split line field))))
     \<and> map_of (parse_line ''SUMMARY: see SUMMARY: above'' initial_parsed_data) ''SUMMARY:'' =
         Some ''see  above''"
proof -
  from assms(1) have ne: "field \<noteq> []" by (auto simp: required_fields_def)
  have j: "line = join field (split line field)"
    using join_split_from [OF ne, of "[]" line] by (simp add: split_def)
  have r: "replace field [] line = concat (split line field)"
    using join_split_from_replace [of "[]" field "[]" line] by (simp add: split_def join_Nil)
  have m: "map_of (parse_line line parsed_data) field =
      (if strip (concat (split line field)) = [] then map_of parsed_data field
       else Some (strip (concat (split line field))))"
    using assms(2,3) by (simp add: map_of_parse_line r)
  have e: "map_of (parse_line ''SUMMARY: see SUMMARY: above'' initial_parsed_data) ''SUMMARY:'' =
      Some ''see  above''"
    by (simp add: map_of_parse_line initial_parsed_data_def strip_def is_space_def)
  from j r m e split_pieces [OF ne, of _ line] show ?thesis by blast
qed

theorem marker_removed_everywhere_witness:
  "''SUMMARY:'' \<in> set required_fields
   \<and> ''SUMMARY:'' \<in> set (map fst initial_parsed_data)
   \<and> prefix ''SUMMARY:'' ''SUMMARY: see SUMMARY: above''
   \<and> split ''SUMMARY: see SUMMARY: above'' ''SUMMARY:'' = ['''', '' see '', '' above'']
   \<and> replace ''SUMMARY:'' [] ''SUMMARY: see SUMMARY: above'' = '' see  above''
   \<and> map_of (parse_line ''SUMMARY: see SUMMARY: above'' initial_parsed_data) ''SUMMARY:'' =
       Some ''see  above''"
proof -
  have h1: "''SUMMARY:'' \<in> set required_fields" by (simp add: required_fields_def)
  have h2: "''SUMMARY:'' \<in> set (map fst initial_parsed_data)"
    by (simp add: initial_parsed_data_def)
  have h3: "prefix ''SUMMARY:'' ''SUMMARY: see SUMMARY: above''" by simp
  have s: "split ''SUMMARY: see SUMMARY: above'' ''SUMMARY:'' = ['''', '' see '', '' above'']"
    by (simp add: split_def)
  note t = marker_removed_everywhere [OF h1 h2 h3]
  from t have "replace ''SUMMARY:'' [] ''SUMMARY: see SUMMARY: above'' =
      concat (split ''SUMMARY: see SUMMARY: above'' ''SUMMARY:'')"
    by blast
  with s have r: "replace ''SUMMARY:'' [] ''SUMMARY: see SUMMARY: above'' = '' see  above''"
    by simp
  from t have e: "map_of (parse_line ''SUMMARY: see SUMMARY: above'' initial_parsed_data)
      ''SUMMARY:'' = Some ''see  above''"
    by blast
  from h1 h2 h3 s r e show ?thesis by (intro conjI)
qed

section \<open>Content cleaning\<close>

lemma remove_tags_no_tag: "\<not> has_tag s \<Longrightarrow> remove_tags s = s"
  by (induction s rule: remove_tags.induct) (simp_all del: tag_at.simps)

lemma remove_tags_leftmost:
  assumes "t \<noteq> []" and "CHR ''>'' \<notin> set t"
    and "\<And>u1 u2. u = u1 @ u2 \<Longrightarrow> u2 \<noteq> [] \<Longrightarrow> \<not> tag_at (u2 @ CHR ''<'' # t @ CHR ''>'' # v)"
  shows "remove_tags (u @ CHR ''<'' # t @ CHR ''>'' # v) = u @ remove_tags v"
  using assms(3)
proof (induction u)
  case Nil
  from assms(1,2) have "tag_at (CHR ''<'' # t @ CHR ''>'' # v)"
    by (cases t) auto
  moreover from assms(2) have "dropWhile (\<lambda>x. x \<noteq> CHR ''>'') (t @ CHR ''>'' # v) = CHR ''>'' # v"
    by (auto simp: dropWhile_append3)
  ultimately show ?case by (simp del: tag_at.simps)
next
  case (Cons c u)
  have "\<not> tag_at ((c # u) @ CHR ''<'' # t @ CHR ''>'' # v)"
    by (rule Cons.prems [of "[]"]) simp_all
  moreover have "remove_tags (u @ CHR ''<'' # t @ CHR ''>'' # v) = u @ remove_tags v"
  proof (rule Cons.IH)
    fix u1 u2
    assume "u = u1 @ u2" and "u2 \<noteq> []"
    then show "\<not> tag_at (u2 @ CHR ''<'' # t @ CHR ''>'' # v)"
      using Cons.prems [of "c # u1" u2] by simp
  qed
  ultimately show ?case by (simp del: tag_at.simps)
qed

lemma strip_decomposition:
  "\<exists>a b. s = a @ strip s @ b \<and> (\<forall>c \<in> set a. is_space c) \<and> (\<forall>c \<in> set b. is_space c)"
proof -
  define a where "a = takeWhile is_space s"
  define d where "d = dropWhile is_space s"
  define b where "b = rev (takeWhile is_space (rev d))"
  have "rev (takeWhile is_space (rev d) @ dropWhile is_space (rev d)) = rev (rev d)"
    by (simp only: takeWhile_dropWhile_id)
  then have "rev (dropWhile is_space (rev d)) @ rev (takeWhile is_space (rev d)) = d"
    by (simp only: rev_append rev_rev_ident)
  then have "d = strip s @ b" by (simp only: strip_def b_def d_def)
  moreover have "s = a @ d" by (simp add: a_def d_def)
  moreover have "\<forall>c \<in> set a. is_space c" unfolding a_def by (meson set_takeWhileD)
  moreover have "\<forall>c \<in> set b. is_space c" unfolding b_def by (auto dest: set_takeWhileD)
  ultimately show ?thesis by blast
qed

lemma replace_crlf_pieces:
  "s = join [CR, NL] (split s [CR, NL])
   \<and> (\<forall>p \<in> set (split s [CR, NL]). \<not> sublist [CR, NL] p)
   \<and> replace [CR, NL] [NL] s = join [NL] (split s [CR, NL])"
proof -
  have ne: "[CR, NL] \<noteq> []" by simp
  have "s = join [CR, NL] (split s [CR, NL])"
    using join_split_from [OF ne, of "[]" s] by (simp add: split_def)
  moreover have "replace [CR, NL] [NL] s = join [NL] (split s [CR, NL])"
    using join_split_from_replace [of "[NL]" "[CR, NL]" "[]" s] by (simp add: split_def)
  ultimately show ?thesis using split_pieces [OF ne, of _ s] by blast
qed

text \<open>
  C4. For every raw content, \<open>clean_response\<close> keeps the text behind the last
  \<open><think>\<close> marker (all of it when there is no marker), removes the tags matched by
  \<open><[^>]+>\<close>, replaces \<open>\r\n\<close> by \<open>\n\<close> and trims the whitespace at both ends.
  Each step is characterised: tag removal leaves a string without tags as it is and cuts
  the leftmost tag out of any other, going on behind it; the replacement writes \<open>\n\<close>
  between the pieces that \<open>\r\n\<close> separates, none of which contains \<open>\r\n\<close>;
  trimming takes away whitespace only. No tag, that is no \<open><\<close> followed by one or
  more characters other than \<open>>\<close> and then \<open>>\<close>, is left in the result, and the
  result neither starts nor ends with whitespace.
\<close>

theorem clean_response_spec:
  "clean_response raw = strip (replace [CR, NL] [NL] (remove_tags (after_think raw)))
   \<and> (\<not> sublist ''<think>'' raw \<longrightarrow> after_think raw = raw)
   \<and> (raw = a @ ''<think>'' @ b \<and> \<not> sublist ''<think>'' b \<longrightarrow> after_think raw = b)
   \<and> (\<not> has_tag s \<longrightarrow> remove_tags s = s)
   \<and> (s = u @ CHR ''<'' # t @ CHR ''>'' # v \<and> t \<noteq> [] \<and> CHR ''>'' \<notin> set t
        \<and> (\<forall>u1 u2. u = u1 @ u2 \<and> u2 \<noteq> [] \<longrightarrow> \<not> tag_at (u2 @ CHR ''<'' # t @ CHR ''>'' # v))
      \<longrightarrow> remove_tags s = u @ remove_tags v)
   \<and> s = join [CR, NL] (split s [CR, NL])
   \<and> (\<forall>p \<in> set (split s [CR, NL]). \<not> sublist [CR, NL] p)
   \<and> replace [CR, NL] [NL] s = join [NL] (split s [CR, NL])
   \<and> (\<exists>x y. s = x @ strip s @ y \<and> (\<forall>c \<in> set x. is_space c) \<and> (\<forall>c \<in> set y. is_space c))
   \<and> \<not> has_tag (clean_response raw)
   \<and> \<not> (\<exists>u t v. clean_response raw = u @ CHR ''<'' # t @ CHR ''>'' # v \<and> t \<noteq> []
          \<and> CHR ''>'' \<notin> set t)
   \<and> (clean_response raw \<noteq> [] \<longrightarrow>
        \<not> is_space (hd (clean_response raw)) \<and> \<not> is_space (last (clean_response raw)))"
proof -
  have d: "clean_response raw = strip (replace [CR, NL] [NL] (remove_tags (after_think raw)))"
    by (simp add: clean_response_def)
  have n: "\<not> sublist ''<think>'' raw \<longrightarrow> after_think raw = raw"
    by (simp add: after_think_def substr_in_iff)
  have l: "raw = a @ ''<think>'' @ b \<and> \<not> sublist ''<think>'' b \<longrightarrow> after_think raw = b"
    using after_think_last [of b a] by blast
  have r1: "\<not> has_tag s \<longrightarrow> remove_tags s = s"
    using remove_tags_no_tag by blast
  have r2: "s = u @ CHR ''<'' # t @ CHR ''>'' # v \<and> t \<noteq> [] \<and> CHR ''>'' \<notin> set t
        \<and> (\<forall>u1 u2. u = u1 @ u2 \<and> u2 \<noteq> [] \<longrightarrow> \<not> tag_at (u2 @ CHR ''<'' # t @ CHR ''>'' # v))
      \<longrightarrow> remove_tags s = u @ remove_tags v"
    using remove_tags_leftmost [of t u v] by blast
  note p = replace_crlf_pieces [of s]
  have p1: "s = join [CR, NL] (split s [CR, NL])" using p by (rule conjunct1)
  have p2: "\<forall>p \<in> set (split s [CR, NL]). \<not> sublist [CR, NL] p"
    using p by (rule conjunct2 [THEN conjunct1])
  have p3: "replace [CR, NL] [NL] s = join [NL] (split s [CR, NL])"
    using p by (rule conjunct2 [THEN conjunct2])
  have sd: "\<exists>x y. s = x @ strip s @ y \<and> (\<forall>c \<in> set x. is_space c) \<and> (\<forall>c \<in> set y. is_space c)"
    by (rule strip_decomposition)
  have g: "\<not> has_tag (clean_response raw)"
    by (rule not_has_tag_clean_response)
  then have e: "\<not> (\<exists>u t v. clean_response raw = u @ CHR ''<'' # t @ CHR ''>'' # v \<and> t \<noteq> []
      \<and> CHR ''>'' \<notin> set t)"
    unfolding has_tag_iff .
  have w: "clean_response raw \<noteq> [] \<longrightarrow>
      \<not> is_space (hd (clean_response raw)) \<and> \<not> is_space (last (clean_response raw))"
    unfolding clean_response_def by (meson strip_trimmed)
  from d n l r1 r2 p1 p2 p3 sd g e w show ?thesis by (intro conjI)
qed

theorem clean_response_spec_witness:
  "\<not> sublist ''<think>'' ''r</think>SUMMARY: x <> ''
   \<and> after_think ''p<think>q<think>r</think>SUMMARY: x <> '' = ''r</think>SUMMARY: x <> ''
   \<and> clean_response ''p<think>q<think>r</think>SUMMARY: x <> '' = ''rSUMMARY: x <>''
   \<and> \<not> has_tag ''rSUMMARY: x <>''
   \<and> \<not> sublist ''<think>'' ''<b>plain</b>''
   \<and> after_think ''<b>plain</b>'' = ''<b>plain</b>''
   \<and> clean_response ''<b>plain</b>'' = ''plain''
   \<and> after_think crlf_reply = ''x</think>A'' @ [CR, NL] @ ''B'' @ [CR, CR, NL] @ ''C ''
   \<and> remove_tags (''x</think>A'' @ [CR, NL] @ ''B'' @ [CR, CR, NL] @ ''C '') =
       ''xA'' @ [CR, NL] @ ''B'' @ [CR, CR, NL] @ ''C ''
   \<and> split (''xA'' @ [CR, NL] @ ''B'' @ [CR, CR, NL] @ ''C '') [CR, NL] =
       [''xA'', ''B'' @ [CR], ''C '']
   \<and> replace [CR, NL] [NL] (''xA'' @ [CR, NL] @ ''B'' @ [CR, CR, NL] @ ''C '') =
       ''xA'' @ [NL] @ ''B'' @ [CR, NL] @ ''C ''
   \<and> clean_response crlf_reply = ''xA'' @ [NL] @ ''B'' @ [CR, NL] @ ''C''"
proof -
  have h: "\<not> sublist ''<think>'' ''r</think>SUMMARY: x <> ''"
    by (simp add: substr_in_iff [symmetric])
  have c: "strip (replace [CR, NL] [NL] (remove_tags ''r</think>SUMMARY: x <> '')) = ''rSUMMARY: x <>''"
    by (simp add: strip_def is_space_def CR_def NL_def)
  have h2: "\<not> sublist ''<think>'' ''<b>plain</b>''"
    by (simp add: substr_in_iff [symmetric])
  have c2: "strip (replace [CR, NL] [NL] (remove_tags ''<b>plain</b>'')) = ''plain''"
    by (simp add: strip_def is_space_def CR_def NL_def)
  note t1 = clean_response_spec [of "''p<think>q<think>r</think>SUMMARY: x <> ''" "''p<think>q''"
      "''r</think>SUMMARY: x <> ''" "[]" "[]" "[]" "[]"]
  note t2 = clean_response_spec [of "''<b>plain</b>''" "[]" "[]" "[]" "[]" "[]" "[]"]
  from t1 h have a1: "after_think ''p<think>q<think>r</think>SUMMARY: x <> '' =
      ''r</think>SUMMARY: x <> ''"
    by simp
  from t1 have "clean_response ''p<think>q<think>r</think>SUMMARY: x <> '' =
      strip (replace [CR, NL] [NL]
        (remove_tags (after_think ''p<think>q<think>r</think>SUMMARY: x <> '')))"
    by (rule conjunct1)
  with a1 c have c1: "clean_response ''p<think>q<think>r</think>SUMMARY: x <> '' =
      ''rSUMMARY: x <>''"
    by (simp only:)
  have g1: "\<not> has_tag (clean_response ''p<think>q<think>r</think>SUMMARY: x <> '')"
    using t1 by blast
  then have n1: "\<not> has_tag ''rSUMMARY: x <>''" unfolding c1 .
  from t2 h2 have a2: "after_think ''<b>plain</b>'' = ''<b>plain</b>''"
    by blast
  from t2 have "clean_response ''<b>plain</b>'' =
      strip (replace [CR, NL] [NL] (remove_tags (after_think ''<b>plain</b>'')))"
    by (rule conjunct1)
  with a2 c2 have c0: "clean_response ''<b>plain</b>'' = ''plain''" by (simp only:)
  define v0 where "v0 = ''A'' @ [CR, NL] @ ''B'' @ [CR, CR, NL] @ ''C ''"
  define b0 where "b0 = ''x'' @ CHR ''<'' # ''/think'' @ CHR ''>'' # v0"
  define s0 where "s0 = ''x'' @ v0"
  have b0: "b0 = ''x</think>A'' @ [CR, NL] @ ''B'' @ [CR, CR, NL] @ ''C ''"
    by (simp add: b0_def v0_def)
  have s0: "s0 = ''xA'' @ [CR, NL] @ ''B'' @ [CR, CR, NL] @ ''C ''"
    by (simp add: s0_def v0_def)
  have k1: "crlf_reply = [] @ ''<think>'' @ b0" by (simp add: crlf_reply_def b0)
  have k2: "\<not> sublist ''<think>'' b0"
    by (simp add: substr_in_iff [symmetric] b0 CR_def NL_def)
  note t3 = clean_response_spec [of crlf_reply "[]" b0 b0 "''x''" "''/think''" v0]
  from t3 k1 k2 have a3: "after_think crlf_reply = b0" by blast
  have k3: "\<forall>u1 u2. ''x'' = u1 @ u2 \<and> u2 \<noteq> [] \<longrightarrow>
      \<not> tag_at (u2 @ CHR ''<'' # ''/think'' @ CHR ''>'' # v0)"
    by (auto simp: append_eq_Cons_conv Cons_eq_append_conv)
  have k4: "b0 = ''x'' @ CHR ''<'' # ''/think'' @ CHR ''>'' # v0 \<and> ''/think'' \<noteq> []
      \<and> CHR ''>'' \<notin> set ''/think''"
    by (simp add: b0_def)
  from t3 k3 k4 have r3: "remove_tags b0 = ''x'' @ remove_tags v0" by blast
  note t4 = clean_response_spec [of "[]" "[]" "[]" v0 "[]" "[]" "[]"]
  have k5: "\<not> has_tag v0" by (simp add: v0_def CR_def NL_def)
  from t4 k5 have r4: "remove_tags v0 = v0" by blast
  from r3 r4 have r5: "remove_tags b0 = s0" by (simp only: s0_def)
  note t5 = clean_response_spec [of "[]" "[]" "[]" s0 "[]" "[]" "[]"]
  have sp: "split s0 [CR, NL] = [''xA'', ''B'' @ [CR], ''C '']"
    by (simp add: s0 split_def CR_def NL_def)
  from t5 have "replace [CR, NL] [NL] s0 = join [NL] (split s0 [CR, NL])" by blast
  then have rp: "replace [CR, NL] [NL] s0 = ''xA'' @ [NL] @ ''B'' @ [CR, NL] @ ''C ''"
    by (simp add: sp)
  from t3 have "clean_response crlf_reply =
      strip (replace [CR, NL] [NL] (remove_tags (after_think crlf_reply)))"
    by (rule conjunct1)
  then have "clean_response crlf_reply = strip (''xA'' @ [NL] @ ''B'' @ [CR, NL] @ ''C '')"
    by (simp only: a3 r5 rp)
  then have cc: "clean_response crlf_reply = ''xA'' @ [NL] @ ''B'' @ [CR, NL] @ ''C''"
    by (simp add: strip_def is_space_def CR_def NL_def)
  from h a1 c1 n1 h2 a2 c0 a3 [unfolded b0] r5 [unfolded b0 s0] sp [unfolded s0]
    rp [unfolded s0] cc
  show ?thesis by (intro conjI)
qed

section \<open>Link extraction and scanning\<close>

lemma take_scheme_run:
  assumes "prefix sch s"
  shows "take (length sch + length (takeWhile P (drop (length sch) s))) s =
     sch @ takeWhile P (drop (length sch) s)"
proof -
  from assms obtain r where "s = sch @ r" by (auto simp: prefix_def)
  then show ?thesis by (simp add: takeWhile_eq_take [symmetric])
qed

lemma url_match_sound:
  assumes "url_match s = Some n"
  shows "spec_url_token (take n s) \<and> n \<le> length s \<and> 0 < n
     \<and> (drop n s = [] \<or> is_space (hd (drop n s)))"
proof -
  define P where "P = (\<lambda>c. \<not> is_space c)"
  have run: "spec_url_token (take (k + length (takeWhile P (drop k s))) s)
      \<and> k + length (takeWhile P (drop k s)) \<le> length s
      \<and> (drop (k + length (takeWhile P (drop k s))) s = []
          \<or> is_space (hd (drop (k + length (takeWhile P (drop k s))) s)))"
    if p: "prefix sch s" and ne: "drop k s \<noteq> []" and h: "P (hd (drop k s))"
      and sch: "sch = ''http://'' \<or> sch = ''https://''" and k: "length sch = k" for sch k
  proof -
    define r where "r = drop k s"
    from p k have s: "s = sch @ r" by (auto simp: prefix_def r_def)
    have t: "take (k + length (takeWhile P r)) s = sch @ takeWhile P r"
      using take_scheme_run [OF p, of P] k by (simp add: r_def)
    from ne h have "takeWhile P r \<noteq> []" by (cases r) (auto simp: r_def)
    moreover have "list_all P (takeWhile P r)"
      by (simp add: list_all_iff) (meson set_takeWhileD)
    ultimately have "spec_url_token (sch @ takeWhile P r)"
      using sch by (auto simp: spec_url_token_def P_def)
    moreover have "k + length (takeWhile P r) \<le> length s"
      using s k by (simp add: length_takeWhile_le)
    moreover have "drop (k + length (takeWhile P r)) s = dropWhile P r"
      using s k by (simp add: dropWhile_eq_drop [symmetric])
    moreover have "dropWhile P r = [] \<or> is_space (hd (dropWhile P r))"
      using hd_dropWhile [of P r] by (auto simp: P_def)
    ultimately show ?thesis using t by (simp add: r_def)
  qed
  have nsa: "(case drop k s of [] \<Rightarrow> False | c # _ \<Rightarrow> \<not> is_space c) =
      (drop k s \<noteq> [] \<and> P (hd (drop k s)))" for k
    by (cases "drop k s") (simp_all add: P_def)
  have um: "url_match s =
      (if prefix ''https://'' s \<and> drop 8 s \<noteq> [] \<and> P (hd (drop 8 s))
       then Some (8 + length (takeWhile P (drop 8 s)))
       else if prefix ''http://'' s \<and> drop 7 s \<noteq> [] \<and> P (hd (drop 7 s))
       then Some (7 + length (takeWhile P (drop 7 s)))
       else None)"
    unfolding url_match_def Let_def nsa by (simp only: P_def)
  show ?thesis
  proof (cases "prefix ''https://'' s \<and> drop 8 s \<noteq> [] \<and> P (hd (drop 8 s))")
    case True
    with um assms have "n = 8 + length (takeWhile P (drop 8 s))" by (simp only: if_True) simp
    with True run [of "''https://''" 8] show ?thesis by simp
  next
    case False
    note nf = False
    show ?thesis
    proof (cases "prefix ''http://'' s \<and> drop 7 s \<noteq> [] \<and> P (hd (drop 7 s))")
      case True
      with um nf assms have "n = 7 + length (takeWhile P (drop 7 s))"
        by (simp only: if_True if_False) simp
      with True run [of "''http://''" 7] show ?thesis by simp
    next
      case False
      with um nf assms show ?thesis by (simp only: if_False) simp
    qed
  qed
qed

lemma extract_links_sound:
  "t \<in> set (extract_links s) \<Longrightarrow> spec_url_token t \<and> sublist t s"
proof (induction s rule: extract_links.induct)
  case 1
  then show ?case by simp
next
  case (2 c cs)
  show ?case
  proof (cases "url_match (c # cs)")
    case None
    with 2 have "spec_url_token t \<and> sublist t cs" by simp
    then show ?thesis by (auto simp: sublist_Cons_right)
  next
    case (Some n)
    from url_match_sound [OF Some] have n: "spec_url_token (take n (c # cs))" "0 < n" by auto
    from Some "2.prems" consider "t = take n (c # cs)" | "t \<in> set (extract_links (drop (n - 1) cs))"
      by auto
    then show ?thesis
    proof cases
      case a: 1
      with n show ?thesis by (metis prefix_imp_sublist take_is_prefix)
    next
      case b: 2
      with Some "2.IH" have "spec_url_token t \<and> sublist t (drop (n - 1) cs)" by blast
      moreover have "sublist (drop (n - 1) cs) (c # cs)"
        by (metis sublist_Cons_right sublist_drop)
      ultimately show ?thesis by (meson sublist_order.order_trans)
    qed
  qed
qed

lemma url_match_unfold:
  "url_match s =
     (if prefix ''https://'' s \<and> drop 8 s \<noteq> [] \<and> \<not> is_space (hd (drop 8 s))
      then Some (8 + length (takeWhile (\<lambda>c. \<not> is_space c) (drop 8 s)))
      else if prefix ''http://'' s \<and> drop 7 s \<noteq> [] \<and> \<not> is_space (hd (drop 7 s))
      then Some (7 + length (takeWhile (\<lambda>c. \<not> is_space c) (drop 7 s)))
      else None)"
proof -
  have nsa: "(case drop k s of [] \<Rightarrow> False | c # _ \<Rightarrow> \<not> is_space c) =
      (drop k s \<noteq> [] \<and> \<not> is_space (hd (drop k s)))" for k
    by (cases "drop k s") simp_all
  show ?thesis unfolding url_match_def Let_def nsa by (rule refl)
qed

lemma scheme_not_space:
  assumes "sch = ''http://'' \<or> sch = ''https://''" and "c \<in> set sch"
  shows "\<not> is_space c"
  using assms by (auto simp: is_space_def)

lemma scheme_prefix_append:
  assumes sch: "sch = ''http://'' \<or> sch = ''https://''"
    and x: "x \<noteq> []" "is_space (last x)"
  shows "prefix sch (x @ s) \<longleftrightarrow> prefix sch x"
proof
  assume "prefix sch (x @ s)"
  then consider "prefix sch x" | us where "sch = x @ us" by (auto simp: prefix_append)
  then show "prefix sch x"
  proof cases
    case 1
    then show ?thesis .
  next
    case 2
    with x(1) have "last x \<in> set sch" by simp
    with sch x(2) show ?thesis using scheme_not_space by blast
  qed
next
  assume "prefix sch x"
  then show "prefix sch (x @ s)" by (rule prefix_prefix)
qed

lemma scheme_run_append:
  assumes sch: "sch = ''http://'' \<or> sch = ''https://''" and k: "length sch = k"
    and x: "x \<noteq> []" "is_space (last x)" and p: "prefix sch x"
  shows "drop k (x @ s) = drop k x @ s
     \<and> drop k x \<noteq> []
     \<and> takeWhile (\<lambda>c. \<not> is_space c) (drop k x @ s) =
         takeWhile (\<lambda>c. \<not> is_space c) (drop k x)"
proof -
  from p obtain r where r: "x = sch @ r" by (auto simp: prefix_def)
  have ne: "r \<noteq> []"
  proof
    assume "r = []"
    with r x(1) have "last x \<in> set sch" by simp
    with sch x(2) show False using scheme_not_space by blast
  qed
  with r have "last r = last x" by simp
  moreover from ne have "last r \<in> set r" by (rule last_in_set)
  ultimately have "last r \<in> set r" "\<not> (\<not> is_space (last r))" using x(2) by simp_all
  then have "takeWhile (\<lambda>c. \<not> is_space c) (r @ s) = takeWhile (\<lambda>c. \<not> is_space c) r"
    by (rule takeWhile_append1)
  with r ne k show ?thesis by simp
qed

lemma url_match_append:
  assumes "x \<noteq> []" and "is_space (last x)"
  shows "url_match (x @ s) = url_match x"
proof -
  have branch: "(prefix sch (x @ s) \<and> drop k (x @ s) \<noteq> [] \<and> \<not> is_space (hd (drop k (x @ s)))) =
        (prefix sch x \<and> drop k x \<noteq> [] \<and> \<not> is_space (hd (drop k x)))"
      "prefix sch x \<Longrightarrow> takeWhile (\<lambda>c. \<not> is_space c) (drop k (x @ s)) =
        takeWhile (\<lambda>c. \<not> is_space c) (drop k x)"
    if sch: "sch = ''http://'' \<or> sch = ''https://''" and k: "length sch = k" for sch k
  proof -
    have a: "prefix sch (x @ s) \<longleftrightarrow> prefix sch x"
      using sch assms by (rule scheme_prefix_append)
    have c: "drop k (x @ s) = drop k x @ s \<and> drop k x \<noteq> []
       \<and> takeWhile (\<lambda>c. \<not> is_space c) (drop k x @ s) =
           takeWhile (\<lambda>c. \<not> is_space c) (drop k x)"
      if "prefix sch x"
      using sch k assms that by (rule scheme_run_append)
    show "(prefix sch (x @ s) \<and> drop k (x @ s) \<noteq> [] \<and> \<not> is_space (hd (drop k (x @ s)))) =
        (prefix sch x \<and> drop k x \<noteq> [] \<and> \<not> is_space (hd (drop k x)))"
    proof (cases "prefix sch x")
      case True
      from c [OF True] have "hd (drop k (x @ s)) = hd (drop k x)" "drop k (x @ s) \<noteq> []"
        by (simp_all del: drop_append)
      with a c [OF True] True show ?thesis by (simp del: drop_append)
    next
      case False
      with a show ?thesis by simp
    qed
    show "takeWhile (\<lambda>c. \<not> is_space c) (drop k (x @ s)) =
        takeWhile (\<lambda>c. \<not> is_space c) (drop k x)" if "prefix sch x"
      using c [OF that] by (simp del: drop_append)
  qed
  note b8 = branch [of "''https://''" 8]
  note b7 = branch [of "''http://''" 7]
  show ?thesis
  proof (cases "prefix ''https://'' x \<and> drop 8 x \<noteq> [] \<and> \<not> is_space (hd (drop 8 x))")
    case True
    with b8 show ?thesis by (simp add: url_match_unfold del: drop_append drop_eq_Nil)
  next
    case False
    note nf = False
    with b8 have nf': "\<not> (prefix ''https://'' (x @ s) \<and> drop 8 (x @ s) \<noteq> []
        \<and> \<not> is_space (hd (drop 8 (x @ s))))"
      by simp
    show ?thesis
    proof (cases "prefix ''http://'' x \<and> drop 7 x \<noteq> [] \<and> \<not> is_space (hd (drop 7 x))")
      case True
      with b7 have t': "prefix ''http://'' (x @ s) \<and> drop 7 (x @ s) \<noteq> []
          \<and> \<not> is_space (hd (drop 7 (x @ s)))"
        by simp
      from True b7 have "takeWhile (\<lambda>c. \<not> is_space c) (drop 7 (x @ s)) =
          takeWhile (\<lambda>c. \<not> is_space c) (drop 7 x)"
        by simp
      then show ?thesis
        unfolding url_match_unfold [of "x @ s"] url_match_unfold [of x]
        using nf nf' True t' by (simp only: if_True if_False)
    next
      case False
      with b7 have f': "\<not> (prefix ''http://'' (x @ s) \<and> drop 7 (x @ s) \<noteq> []
          \<and> \<not> is_space (hd (drop 7 (x @ s))))"
        by simp
      show ?thesis
        unfolding url_match_unfold [of "x @ s"] url_match_unfold [of x]
        using nf nf' False f' by (simp only: if_False)
    qed
  qed
qed

lemma extract_links_append:
  "x = [] \<or> is_space (last x) \<Longrightarrow> extract_links (x @ s) = extract_links x @ extract_links s"
proof (induction x rule: extract_links.induct)
  case 1
  show ?case by simp
next
  case (2 c cs)
  then have sp: "is_space (last (c # cs))" by simp
  then have um: "url_match ((c # cs) @ s) = url_match (c # cs)"
    by (intro url_match_append) simp_all
  show ?case
  proof (cases "url_match (c # cs)")
    case None
    from sp have "cs = [] \<or> is_space (last cs)" by (auto split: if_splits)
    with None "2.IH" have "extract_links (cs @ s) = extract_links cs @ extract_links s" by blast
    with None um show ?thesis by simp
  next
    case (Some n)
    from url_match_sound [OF Some] have n: "n \<le> length (c # cs)" "0 < n" by auto
    define y where "y = drop (n - 1) cs"
    have "y = [] \<or> is_space (last y)"
    proof (cases "y = []")
      case True
      then show ?thesis by simp
    next
      case False
      then have "n - 1 < length cs" by (simp add: y_def)
      then have "last y = last cs" "cs \<noteq> []" by (auto simp: y_def last_drop)
      with sp show ?thesis by simp
    qed
    with Some "2.IH" have ih: "extract_links (y @ s) = extract_links y @ extract_links s"
      unfolding y_def by blast
    from n have "drop (n - 1) (cs @ s) = y @ s" by (simp add: y_def)
    moreover from n have "take n (c # (cs @ s)) = take n (c # cs)" by (cases n) simp_all
    ultimately have "extract_links ((c # cs) @ s) = take n (c # cs) # extract_links (y @ s)"
      using um Some by simp
    with ih Some show ?thesis by (simp add: y_def)
  qed
qed

lemma spec_url_token_iff:
  "spec_url_token t \<longleftrightarrow>
     (\<exists>sch rest. (sch = ''http://'' \<or> sch = ''https://'') \<and> t = sch @ rest \<and> rest \<noteq> []
        \<and> (\<forall>c \<in> set rest. \<not> is_space c))"
  by (auto simp: spec_url_token_def prefix_def list_all_iff)

lemma url_match_token:
  assumes "spec_url_token t" and "b = [] \<or> is_space (hd b)"
  shows "url_match (t @ b) = Some (length t)"
proof -
  from assms(1) obtain sch rest where sch: "sch = ''http://'' \<or> sch = ''https://''"
    and t: "t = sch @ rest" and r: "rest \<noteq> []" and ns: "\<forall>c \<in> set rest. \<not> is_space c"
    unfolding spec_url_token_iff by blast
  from assms(2) have "takeWhile (\<lambda>c. \<not> is_space c) b = []" by (cases b) auto
  with ns have run: "takeWhile (\<lambda>c. \<not> is_space c) (rest @ b) = rest"
    by (simp add: takeWhile_append2)
  from r ns have h: "\<not> is_space (hd rest)" by (cases rest) auto
  from sch show ?thesis
  proof
    assume "sch = ''http://''"
    with t r h run show ?thesis by (simp add: url_match_unfold)
  next
    assume "sch = ''https://''"
    with t r h run show ?thesis by (simp add: url_match_unfold)
  qed
qed

lemma extract_links_complete:
  assumes "spec_url_token t" and "a = [] \<or> is_space (last a)" and "b = [] \<or> is_space (hd b)"
  shows "t \<in> set (extract_links (a @ t @ b))"
proof -
  from assms(1) have "t \<noteq> []" by (auto simp: spec_url_token_iff)
  then obtain c cs where c: "t = c # cs" by (cases t) auto
  from assms(1,3) have "url_match (t @ b) = Some (length t)" by (rule url_match_token)
  with c have "extract_links (t @ b) = t # extract_links b" by simp
  moreover from assms(2) have "extract_links (a @ t @ b) = extract_links a @ extract_links (t @ b)"
    by (rule extract_links_append)
  ultimately show ?thesis by simp
qed

lemma keys_scan_fold:
  "map fst (fold (\<lambda>link acc. AList.update link (g link) acc) links acc) =
     map fst acc @ filter (\<lambda>l. l \<notin> set (map fst acc)) (spec_first_occurrences links)"
proof (induction links arbitrary: acc)
  case Nil
  show ?case by simp
next
  case (Cons l ls)
  show ?case
  proof (cases "l \<in> set (map fst acc)")
    case True
    then have "filter (\<lambda>x. x \<notin> set (map fst acc)) (filter (\<lambda>y. y \<noteq> l) (spec_first_occurrences ls)) =
        filter (\<lambda>x. x \<notin> set (map fst acc)) (spec_first_occurrences ls)"
      by (auto intro: filter_cong)
    with True Cons.IH [of "AList.update l (g l) acc"] show ?thesis
      by (simp add: update_keys)
  next
    case False
    have "filter (\<lambda>x. x \<notin> set (map fst acc @ [l])) (spec_first_occurrences ls) =
        filter (\<lambda>x. x \<notin> set (map fst acc)) (filter (\<lambda>y. y \<noteq> l) (spec_first_occurrences ls))"
      by (auto intro: filter_cong)
    with False Cons.IH [of "AList.update l (g l) acc"] show ?thesis
      by (simp add: update_keys)
  qed
qed

lemma map_of_scan_fold:
  "map_of (fold (\<lambda>link acc. AList.update link (g link) acc) links acc) k =
     (if k \<in> set links then Some (g k) else map_of acc k)"
  by (induction links arbitrary: acc) (auto simp: update_conv')

lemma distinct_first_occurrences: "distinct (spec_first_occurrences xs)"
  by (induction xs) auto

lemma set_first_occurrences: "set (spec_first_occurrences xs) = set xs"
  by (induction xs) auto

lemma url_match_None_iff: "url_match x = None \<longleftrightarrow> \<not> spec_url_at x"
proof -
  have nsa: "(case drop k x of [] \<Rightarrow> False | c # _ \<Rightarrow> \<not> is_space c) =
      (drop k x \<noteq> [] \<and> \<not> is_space (hd (drop k x)))" for k
    by (cases "drop k x") simp_all
  have "spec_url_at x \<longleftrightarrow>
      (prefix ''http://'' x \<and> drop 7 x \<noteq> [] \<and> \<not> is_space (hd (drop 7 x)))
      \<or> (prefix ''https://'' x \<and> drop 8 x \<noteq> [] \<and> \<not> is_space (hd (drop 8 x)))"
  proof -
    have g: "list_ex P [p, q] = (P p \<or> P q)" for P and p q :: string by simp
    have l7: "length ''http://'' = 7" and l8: "length ''https://'' = 8" by simp_all
    show ?thesis unfolding spec_url_at_def g l7 l8 nsa by (rule refl)
  qed
  then show ?thesis unfolding url_match_unfold by auto
qed

lemma extract_links_none:
  "(\<And>a b. s = a @ b \<Longrightarrow> \<not> spec_url_at b) \<Longrightarrow> extract_links s = []"
proof (induction s)
  case Nil
  show ?case by simp
next
  case (Cons c cs)
  have "\<not> spec_url_at (c # cs)" by (rule Cons.prems [of "[]"]) simp
  then have "url_match (c # cs) = None" by (simp add: url_match_None_iff)
  moreover have "extract_links cs = []"
  proof (rule Cons.IH)
    fix a b
    assume "cs = a @ b"
    then show "\<not> spec_url_at b" using Cons.prems [of "c # a" b] by simp
  qed
  ultimately show ?case by simp
qed

lemma extract_links_leftmost:
  assumes "spec_url_token t" and "v = [] \<or> is_space (hd v)"
    and "\<And>u1 u2. u = u1 @ u2 \<Longrightarrow> u2 \<noteq> [] \<Longrightarrow> \<not> spec_url_at (u2 @ t @ v)"
  shows "extract_links (u @ t @ v) = t # extract_links v"
  using assms(3)
proof (induction u)
  case Nil
  from assms(1) have "t \<noteq> []" by (auto simp: spec_url_token_iff)
  then obtain c cs where c: "t = c # cs" by (cases t) auto
  from assms(1,2) have "url_match (t @ v) = Some (length t)" by (rule url_match_token)
  with c show ?case by simp
next
  case (Cons c u)
  have "\<not> spec_url_at ((c # u) @ t @ v)" by (rule Cons.prems [of "[]"]) simp_all
  then have "url_match (c # (u @ t @ v)) = None" by (simp add: url_match_None_iff)
  moreover have "extract_links (u @ t @ v) = t # extract_links v"
  proof (rule Cons.IH)
    fix u1 u2
    assume "u = u1 @ u2" and "u2 \<noteq> []"
    then show "\<not> spec_url_at (u2 @ t @ v)" using Cons.prems [of "c # u1" u2] by simp
  qed
  ultimately show ?case by simp
qed

text \<open>
  C6. For every body text, the keys of the link scan are the matches that
  \<open>re.findall\<close> reads off the body from left to right, each once, at the place of its
  first occurrence. The matches are characterised: a body in which the pattern matches
  at no position has none; otherwise the first match starts at the leftmost position
  where \<open>http://\<close> or \<open>https://\<close> is followed by a non-whitespace character, wherever
  in a word that is, it runs to the next whitespace or the end of the body, and the
  scan goes on behind it. Every key is thus a substring of the body made of
  \<open>http://\<close> or \<open>https://\<close> and one or more non-whitespace characters. A key maps
  to \<open>SAFE\<close> when the validation capability is there and accepts it, to \<open>INVALID\<close>
  when it is there and rejects it, and to \<open>UNKNOWN\<close> when it is absent. The body
  \<open>Click http://example.com/pay now\<close> without the capability gives
  \<open>{"http://example.com/pay": UNKNOWN}\<close>.
\<close>

theorem link_scan:
  "map fst (scan_links vals (extract_links body_text)) = spec_first_occurrences (extract_links body_text)
   \<and> distinct (map fst (scan_links vals (extract_links body_text)))
   \<and> (\<forall>t \<in> set (extract_links body_text). spec_url_token t \<and> sublist t body_text)
   \<and> (body_text = a @ t @ b \<and> spec_url_token t \<and> (a = [] \<or> is_space (last a))
        \<and> (b = [] \<or> is_space (hd b)) \<longrightarrow> t \<in> set (extract_links body_text))
   \<and> ((\<forall>x y. body_text = x @ y \<longrightarrow> \<not> spec_url_at y) \<longrightarrow> extract_links body_text = [])
   \<and> (body_text = a @ t @ b \<and> spec_url_token t \<and> (b = [] \<or> is_space (hd b))
        \<and> (\<forall>a1 a2. a = a1 @ a2 \<and> a2 \<noteq> [] \<longrightarrow> \<not> spec_url_at (a2 @ t @ b))
      \<longrightarrow> extract_links body_text = t # extract_links b)
   \<and> (\<forall>t \<in> set (extract_links body_text).
        map_of (scan_links vals (extract_links body_text)) t =
          Some (case vals of None \<Rightarrow> ''UNKNOWN''
                | Some url \<Rightarrow> if url t then ''SAFE'' else ''INVALID''))
   \<and> scan_links None (extract_links scenario_D) = [(''http://example.com/pay'', ''UNKNOWN'')]"
proof -
  have k: "map fst (scan_links vals (extract_links body_text)) =
      spec_first_occurrences (extract_links body_text)"
    using keys_scan_fold [of "scan_link vals" "extract_links body_text" "[]"]
    by (simp add: scan_links_def)
  then have d: "distinct (map fst (scan_links vals (extract_links body_text)))"
    by (simp only: distinct_first_occurrences)
  have s: "\<forall>t \<in> set (extract_links body_text). spec_url_token t \<and> sublist t body_text"
    using extract_links_sound by blast
  have c: "body_text = a @ t @ b \<and> spec_url_token t \<and> (a = [] \<or> is_space (last a))
        \<and> (b = [] \<or> is_space (hd b)) \<longrightarrow> t \<in> set (extract_links body_text)"
    using extract_links_complete by blast
  have n: "(\<forall>x y. body_text = x @ y \<longrightarrow> \<not> spec_url_at y) \<longrightarrow> extract_links body_text = []"
    using extract_links_none [of body_text] by blast
  have l: "body_text = a @ t @ b \<and> spec_url_token t \<and> (b = [] \<or> is_space (hd b))
        \<and> (\<forall>a1 a2. a = a1 @ a2 \<and> a2 \<noteq> [] \<longrightarrow> \<not> spec_url_at (a2 @ t @ b))
      \<longrightarrow> extract_links body_text = t # extract_links b"
    using extract_links_leftmost [of t b a] by blast
  have v: "\<forall>t \<in> set (extract_links body_text).
        map_of (scan_links vals (extract_links body_text)) t =
          Some (case vals of None \<Rightarrow> ''UNKNOWN''
                | Some url \<Rightarrow> if url t then ''SAFE'' else ''INVALID'')"
    by (simp add: scan_links_def map_of_scan_fold scan_link_def)
  have "extract_links scenario_D = [''http://example.com/pay'']"
    by (simp add: scenario_D_def url_match_def is_space_def)
  then have e: "scan_links None (extract_links scenario_D) = [(''http://example.com/pay'', ''UNKNOWN'')]"
    by (simp add: scan_links_def scan_link_def)
  from k d s c n l v e show ?thesis by (intro conjI)
qed

theorem link_scan_witness:
  "scenario_D = ''Click '' @ ''http://example.com/pay'' @ '' now''
   \<and> spec_url_token ''http://example.com/pay''
   \<and> is_space (last ''Click '') \<and> is_space (hd '' now'')
   \<and> ''http://example.com/pay'' \<in> set (extract_links scenario_D)
   \<and> map_of (scan_links None (extract_links scenario_D)) ''http://example.com/pay'' = Some ''UNKNOWN''
   \<and> extract_links two_links = [''http://ok.com'', ''https://bad'', ''http://ok.com'']
   \<and> map fst (scan_links (Some dotted) (extract_links two_links)) = [''http://ok.com'', ''https://bad'']
   \<and> map_of (scan_links (Some dotted) (extract_links two_links)) ''http://ok.com'' = Some ''SAFE''
   \<and> map_of (scan_links (Some dotted) (extract_links two_links)) ''https://bad'' = Some ''INVALID''
   \<and> glued_link = ''see('' @ ''http://a.com)'' @ '' or xhttps://b.org''
   \<and> spec_url_token ''http://a.com)''
   \<and> extract_links glued_link = [''http://a.com)'', ''https://b.org'']
   \<and> map fst (scan_links None (extract_links glued_link)) = [''http://a.com)'', ''https://b.org'']"
proof -
  have h1: "scenario_D = ''Click '' @ ''http://example.com/pay'' @ '' now''"
    by (simp add: scenario_D_def)
  have h2: "spec_url_token ''http://example.com/pay''"
    by (simp add: spec_url_token_def is_space_def)
  have h3: "is_space (last ''Click '')" "is_space (hd '' now'')" by (simp_all add: is_space_def)
  note t = link_scan [of None scenario_D "''Click ''" "''http://example.com/pay''" "'' now''"]
  from t h1 h2 h3 have m: "''http://example.com/pay'' \<in> set (extract_links scenario_D)"
    by blast
  from t have "\<forall>t \<in> set (extract_links scenario_D).
      map_of (scan_links None (extract_links scenario_D)) t =
        Some (case None of None \<Rightarrow> ''UNKNOWN''
              | Some url \<Rightarrow> if url t then ''SAFE'' else ''INVALID'')"
    by blast
  then have "\<forall>t \<in> set (extract_links scenario_D).
      map_of (scan_links None (extract_links scenario_D)) t = Some ''UNKNOWN''"
    by (simp only: option.case)
  with m have v: "map_of (scan_links None (extract_links scenario_D)) ''http://example.com/pay'' =
      Some ''UNKNOWN''"
    by blast
  have e: "extract_links two_links = [''http://ok.com'', ''https://bad'', ''http://ok.com'']"
    by (simp add: two_links_def url_match_def is_space_def)
  note u = link_scan [of "Some dotted" two_links "[]" "[]" "[]"]
  from u have "map fst (scan_links (Some dotted) (extract_links two_links)) =
      spec_first_occurrences (extract_links two_links)"
    by blast
  with e have k: "map fst (scan_links (Some dotted) (extract_links two_links)) =
      [''http://ok.com'', ''https://bad'']"
    by simp
  from u have "\<forall>t \<in> set (extract_links two_links).
      map_of (scan_links (Some dotted) (extract_links two_links)) t =
        Some (case Some dotted of None \<Rightarrow> ''UNKNOWN''
              | Some url \<Rightarrow> if url t then ''SAFE'' else ''INVALID'')"
    by blast
  then have w: "\<forall>t \<in> set (extract_links two_links).
      map_of (scan_links (Some dotted) (extract_links two_links)) t =
        Some (if dotted t then ''SAFE'' else ''INVALID'')"
    by (simp only: option.case)
  from e have "''http://ok.com'' \<in> set (extract_links two_links)"
    "''https://bad'' \<in> set (extract_links two_links)"
    by simp_all
  with w have v1: "map_of (scan_links (Some dotted) (extract_links two_links)) ''http://ok.com'' =
      Some ''SAFE''"
    and v2: "map_of (scan_links (Some dotted) (extract_links two_links)) ''https://bad'' =
      Some ''INVALID''"
    by (simp_all add: dotted_def)
  have g1: "glued_link = ''see('' @ ''http://a.com)'' @ '' or xhttps://b.org''"
    by (simp add: glued_link_def)
  have g2: "spec_url_token ''http://a.com)''" "spec_url_token ''https://b.org''"
    by (simp_all add: spec_url_token_def is_space_def)
  have g3: "'' or xhttps://b.org'' = [] \<or> is_space (hd '' or xhttps://b.org'')"
    by (simp add: is_space_def)
  have g4: "\<forall>a1 a2. ''see('' = a1 @ a2 \<and> a2 \<noteq> [] \<longrightarrow>
      \<not> spec_url_at (a2 @ ''http://a.com)'' @ '' or xhttps://b.org'')"
    by (auto simp: append_eq_Cons_conv Cons_eq_append_conv spec_url_at_def)
  from link_scan [of None glued_link "''see(''" "''http://a.com)''" "'' or xhttps://b.org''"]
    g1 g2(1) g3 g4
  have x1: "extract_links glued_link = ''http://a.com)'' # extract_links '' or xhttps://b.org''"
    by blast
  have g5: "'' or xhttps://b.org'' = '' or x'' @ ''https://b.org'' @ []" by simp
  have g6: "\<forall>a1 a2. '' or x'' = a1 @ a2 \<and> a2 \<noteq> [] \<longrightarrow>
      \<not> spec_url_at (a2 @ ''https://b.org'' @ [])"
    by (auto simp: append_eq_Cons_conv Cons_eq_append_conv spec_url_at_def)
  from link_scan [of None "'' or xhttps://b.org''" "'' or x''" "''https://b.org''" "[]"]
    g5 g2(2) g6
  have x2: "extract_links '' or xhttps://b.org'' = ''https://b.org'' # extract_links []"
    by blast
  have g7: "\<forall>x y. ([] :: string) = x @ y \<longrightarrow> \<not> spec_url_at y"
    by (simp add: spec_url_at_def)
  from link_scan [of None "[]" "[]" "[]" "[]"] g7 have x3: "extract_links [] = []"
    by blast
  from x1 x2 x3 have x: "extract_links glued_link = [''http://a.com)'', ''https://b.org'']"
    by (simp only:)
  from link_scan [of None glued_link "[]" "[]" "[]"]
  have "map fst (scan_links None (extract_links glued_link)) =
      spec_first_occurrences (extract_links glued_link)"
    by blast
  then have y: "map fst (scan_links None (extract_links glued_link)) =
      [''http://a.com)'', ''https://b.org'']"
    by (simp add: x)
  from h1 h2 h3 m v e k v1 v2 g1 g2(1) x y show ?thesis by (intro conjI)
qed

section \<open>Facts about the handlers\<close>

lemma validate_payload_build: "validate_payload (build_payload email)"
  by (simp add: validate_payload_def build_payload_def is_dict_def has_role_and_content_def)

lemma summarize_email_unfold:
  "summarize_email E email =
     ([build_payload email],
      case post E (build_payload email) of
        Inl e \<Rightarrow> request_failed E e
      | Inr r \<Rightarrow>
          (case on_response (scan_links (validators E) (extract_links (body email))) r of
             Inl e \<Rightarrow> request_failed E e
           | Inr answer \<Rightarrow> answer))"
  by (simp add: summarize_email_def Let_def validate_payload_build)

lemma has_required_fields_iff:
  "has_required_fields c \<longleftrightarrow>
     sublist ''SUMMARY:'' c \<and> sublist ''RISK_LEVEL:'' c \<and> sublist ''RISK_DETAILS:'' c"
  by (simp add: has_required_fields_def required_fields_def substr_in_iff)

lemma parse_content_missing:
  "\<not> has_required_fields content \<Longrightarrow> parse_content scanned content = Inr missing_fields_response"
  by (simp add: parse_content_def)

lemma parse_content_ok:
  assumes "has_required_fields content"
  shows "parse_content scanned content =
     Inr \<lparr>summary = spec_final_value ''SUMMARY:'' ''No summary available'' (content_lines content),
          status = ''success'',
          risk_assessment =
            check_risk_level (spec_final_value ''RISK_LEVEL:'' ''UNKNOWN'' (content_lines content))
            @ '' - ''
            @ spec_final_value ''RISK_DETAILS:'' ''No details provided'' (content_lines content),
          error = None, link_scan_results = scanned\<rparr>"
proof -
  have "lookup (parse_lines ls) ''SUMMARY:'' = Inr (spec_final_value ''SUMMARY:'' ''No summary available'' ls)"
    "lookup (parse_lines ls) ''RISK_LEVEL:'' = Inr (spec_final_value ''RISK_LEVEL:'' ''UNKNOWN'' ls)"
    "lookup (parse_lines ls) ''RISK_DETAILS:'' = Inr (spec_final_value ''RISK_DETAILS:'' ''No details provided'' ls)"
    for ls
    by (rule lookup_parse_lines, simp add: initial_parsed_data_def)+
  with assms show ?thesis by (simp add: parse_content_def Let_def)
qed

lemma validate_response_message: "validate_response result = Inr (Some m) \<Longrightarrow> m \<noteq> []"
  by (auto simp: validate_response_def split: json.splits option.splits list.splits sum.splits bool.splits)

lemma error_response_outcome: "m \<noteq> [] \<Longrightarrow> is_error_outcome (error_response m)"
  by (simp add: is_error_outcome_def error_response_def)

lemma request_failed_outcome: "is_error_outcome (request_failed E e)"
  by (simp add: request_failed_def error_response_outcome)

lemma api_error_outcome: "is_error_outcome (api_error r)"
  by (simp add: api_error_def error_response_outcome)

lemma missing_fields_outcome: "is_error_outcome missing_fields_response"
  by (simp add: is_error_outcome_def missing_fields_response_def)

lemma empty_outcome: "is_error_outcome empty_response"
  by (simp add: is_error_outcome_def empty_response_def)

lemma sample_failed_outcome: "is_error_outcome (sample_failed E e)"
  by (cases e) (simp_all add: sample_failed_def error_response_outcome)

section \<open>Missing required fields\<close>

lemma summarize_email_content:
  assumes "post E (build_payload email) = Inr r" and "status_code r = 200"
    and "resp_json r = Inr result" and "validate_response result = Inr None"
    and "get_content result = Inr raw"
  shows "snd (summarize_email E email) =
     (case parse_content (Some (scan_links (validators E) (extract_links (body email))))
             (clean_response raw) of
        Inl e \<Rightarrow> request_failed E (Interp e)
      | Inr answer \<Rightarrow> answer)"
  using assms by (simp add: summarize_email_unfold on_response_def split: sum.splits)

lemma validate_reply_envelope: "validate_response (reply_envelope c) = Inr None"
  by (simp add: validate_response_def reply_envelope_def py_in_def getitem_def)

lemma get_content_reply_envelope: "get_content (reply_envelope c) = Inr (strip c)"
  by (simp add: get_content_def reply_envelope_def getitem_def getitem0_def py_strip_def)

lemma responding_post: "post (responding r) data = Inr r"
  by (simp add: responding_def)

lemma raising_post: "post (raising e) data = Inl e"
  by (simp add: raising_def)

lemma answering_post: "post (answering c) data = Inr (ok_response (reply_envelope c))"
  by (simp add: answering_def responding_def)

text \<open>
  C3. For every cleaned content that does not contain all three of \<open>SUMMARY:\<close>,
  \<open>RISK_LEVEL:\<close> and \<open>RISK_DETAILS:\<close> as substrings, in whatever order, parsing
  returns the missing-fields outcome, and the handler of main.py answers with status
  \<open>error\<close> and the error text \<open>API response missing required fields\<close>; a
  content without \<open>RISK_LEVEL:\<close> is such a content.
\<close>

theorem missing_fields_error:
  "(\<not> (sublist ''SUMMARY:'' content \<and> sublist ''RISK_LEVEL:'' content
        \<and> sublist ''RISK_DETAILS:'' content)
      \<longrightarrow> parse_content scanned content = Inr missing_fields_response)
   \<and> (post E (build_payload email) = Inr r \<and> status_code r = 200 \<and> resp_json r = Inr result
        \<and> validate_response result = Inr None \<and> get_content result = Inr raw
        \<and> \<not> (sublist ''SUMMARY:'' (clean_response raw) \<and> sublist ''RISK_LEVEL:'' (clean_response raw)
             \<and> sublist ''RISK_DETAILS:'' (clean_response raw))
      \<longrightarrow> status (snd (summarize_email E email)) = ''error''
          \<and> error (snd (summarize_email E email)) = Some ''API response missing required fields'')
   \<and> status missing_fields_response = ''error''
   \<and> error missing_fields_response = Some ''API response missing required fields''"
proof -
  have a: "parse_content s c = Inr missing_fields_response"
    if "\<not> (sublist ''SUMMARY:'' c \<and> sublist ''RISK_LEVEL:'' c \<and> sublist ''RISK_DETAILS:'' c)"
    for s c
    using that by (intro parse_content_missing) (simp add: has_required_fields_iff)
  have b: "status missing_fields_response = ''error''"
    "error missing_fields_response = Some ''API response missing required fields''"
    by (simp_all add: missing_fields_response_def)
  have c: "snd (summarize_email E email) = missing_fields_response"
    if "post E (build_payload email) = Inr r" "status_code r = 200" "resp_json r = Inr result"
      "validate_response result = Inr None" "get_content result = Inr raw"
      "\<not> (sublist ''SUMMARY:'' (clean_response raw) \<and> sublist ''RISK_LEVEL:'' (clean_response raw)
          \<and> sublist ''RISK_DETAILS:'' (clean_response raw))"
    using summarize_email_content [OF that(1-5)] a [OF that(6)] by simp
  from a b c show ?thesis by (metis (no_types, lifting))
qed

theorem missing_fields_error_witness:
  "post (answering scenario_C) (build_payload example_email) =
     Inr (ok_response (reply_envelope scenario_C))
   \<and> validate_response (reply_envelope scenario_C) = Inr None
   \<and> get_content (reply_envelope scenario_C) = Inr scenario_C
   \<and> clean_response scenario_C = scenario_C
   \<and> \<not> sublist ''RISK_LEVEL:'' scenario_C
   \<and> status (snd (summarize_email (answering scenario_C) example_email)) = ''error''
   \<and> error (snd (summarize_email (answering scenario_C) example_email)) =
       Some ''API response missing required fields''"
proof -
  define r where "r = ok_response (reply_envelope scenario_C)"
  have h1: "post (answering scenario_C) (build_payload example_email) = Inr r"
    by (simp add: answering_post r_def)
  have h2: "status_code r = 200" "resp_json r = Inr (reply_envelope scenario_C)"
    by (simp_all add: r_def ok_response_def)
  have h3: "validate_response (reply_envelope scenario_C) = Inr None"
    by (rule validate_reply_envelope)
  have "strip scenario_C = scenario_C"
    by (simp add: scenario_C_def strip_def is_space_def NL_def)
  then have h4: "get_content (reply_envelope scenario_C) = Inr scenario_C"
    by (simp add: get_content_reply_envelope)
  have h5: "clean_response scenario_C = scenario_C"
    by (simp add: clean_response_def after_think_def scenario_C_def strip_def is_space_def NL_def CR_def)
  have h6: "\<not> sublist ''RISK_LEVEL:'' scenario_C"
    by (simp add: substr_in_iff [symmetric] scenario_C_def NL_def)
  from h5 h6 have h7: "\<not> (sublist ''SUMMARY:'' (clean_response scenario_C)
      \<and> sublist ''RISK_LEVEL:'' (clean_response scenario_C)
      \<and> sublist ''RISK_DETAILS:'' (clean_response scenario_C))"
    by simp
  from missing_fields_error [of _ _ "answering scenario_C" example_email r
      "reply_envelope scenario_C" scenario_C] h1 h2 h3 h4 h7
  have "status (snd (summarize_email (answering scenario_C) example_email)) = ''error''
      \<and> error (snd (summarize_email (answering scenario_C) example_email)) =
          Some ''API response missing required fields''"
    by blast
  with h1 h3 h4 h5 h6 show ?thesis by (simp add: r_def)
qed

section \<open>Risk level\<close>

lemma summarize_email_success:
  assumes "post E (build_payload email) = Inr r" and "status_code r = 200"
    and "resp_json r = Inr result" and "validate_response result = Inr None"
    and "get_content result = Inr raw" and "has_required_fields (clean_response raw)"
  shows "snd (summarize_email E email) =
     \<lparr>summary = spec_final_value ''SUMMARY:'' ''No summary available''
                   (content_lines (clean_response raw)),
      status = ''success'',
      risk_assessment =
        check_risk_level (spec_final_value ''RISK_LEVEL:'' ''UNKNOWN''
                            (content_lines (clean_response raw)))
        @ '' - ''
        @ spec_final_value ''RISK_DETAILS:'' ''No details provided''
            (content_lines (clean_response raw)),
      error = None,
      link_scan_results = Some (scan_links (validators E) (extract_links (body email)))\<rparr>"
  using summarize_email_content [OF assms(1-5)] parse_content_ok [OF assms(6)] by simp

text \<open>
  C5. The risk level written into \<open>risk_assessment\<close> is always one of \<open>LOW\<close>,
  \<open>MEDIUM\<close>, \<open>HIGH\<close>, \<open>UNKNOWN\<close>: an extracted value outside this set is replaced by
  \<open>UNKNOWN\<close>, one inside it is kept, and whenever the reply has the three markers the
  request returns status \<open>success\<close> with \<open>risk_assessment\<close> made of that level,
  \<open> - \<close> and the details.
\<close>

theorem risk_level_coerced:
  "check_risk_level v \<in> set [''LOW'', ''MEDIUM'', ''HIGH'', ''UNKNOWN'']
   \<and> (v \<notin> set [''LOW'', ''MEDIUM'', ''HIGH'', ''UNKNOWN''] \<longrightarrow> check_risk_level v = ''UNKNOWN'')
   \<and> (v \<in> set [''LOW'', ''MEDIUM'', ''HIGH'', ''UNKNOWN''] \<longrightarrow> check_risk_level v = v)
   \<and> (post E (build_payload email) = Inr r \<and> status_code r = 200 \<and> resp_json r = Inr result
        \<and> validate_response result = Inr None \<and> get_content result = Inr raw
        \<and> has_required_fields (clean_response raw)
      \<longrightarrow> status (snd (summarize_email E email)) = ''success''
          \<and> risk_assessment (snd (summarize_email E email)) =
              check_risk_level (spec_final_value ''RISK_LEVEL:'' ''UNKNOWN''
                                  (content_lines (clean_response raw)))
              @ '' - ''
              @ spec_final_value ''RISK_DETAILS:'' ''No details provided''
                  (content_lines (clean_response raw)))"
proof -
  have a: "check_risk_level v \<in> set [''LOW'', ''MEDIUM'', ''HIGH'', ''UNKNOWN'']"
    by (simp add: check_risk_level_def)
  have b: "v \<notin> set [''LOW'', ''MEDIUM'', ''HIGH'', ''UNKNOWN''] \<longrightarrow> check_risk_level v = ''UNKNOWN''"
    by (simp add: check_risk_level_def)
  have c: "v \<in> set [''LOW'', ''MEDIUM'', ''HIGH'', ''UNKNOWN''] \<longrightarrow> check_risk_level v = v"
    by (simp add: check_risk_level_def)
  have d: "status (snd (summarize_email E email)) = ''success''
      \<and> risk_assessment (snd (summarize_email E email)) =
          check_risk_level (spec_final_value ''RISK_LEVEL:'' ''UNKNOWN''
                              (content_lines (clean_response raw)))
          @ '' - ''
          @ spec_final_value ''RISK_DETAILS:'' ''No details provided''
              (content_lines (clean_response raw))"
    if "post E (build_payload email) = Inr r" "status_code r = 200" "resp_json r = Inr result"
      "validate_response result = Inr None" "get_content result = Inr raw"
      "has_required_fields (clean_response raw)"
    using summarize_email_success [OF that] by simp
  from a b c d show ?thesis by blast
qed

theorem risk_level_coerced_witness:
  "''low'' \<notin> set [''LOW'', ''MEDIUM'', ''HIGH'', ''UNKNOWN'']
   \<and> check_risk_level ''low'' = ''UNKNOWN''
   \<and> ''HIGH'' \<in> set [''LOW'', ''MEDIUM'', ''HIGH'', ''UNKNOWN'']
   \<and> check_risk_level ''HIGH'' = ''HIGH''
   \<and> has_required_fields (clean_response scenario_lower)
   \<and> spec_final_value ''RISK_LEVEL:'' ''UNKNOWN'' (content_lines (clean_response scenario_lower)) = ''low''
   \<and> status (snd (summarize_email (answering scenario_lower) example_email)) = ''success''
   \<and> risk_assessment (snd (summarize_email (answering scenario_lower) example_email)) =
       ''UNKNOWN - ok''"
proof -
  define r where "r = ok_response (reply_envelope scenario_lower)"
  have h1: "post (answering scenario_lower) (build_payload example_email) = Inr r"
    by (simp add: answering_post r_def)
  have h2: "status_code r = 200" "resp_json r = Inr (reply_envelope scenario_lower)"
    by (simp_all add: r_def ok_response_def)
  have h3: "validate_response (reply_envelope scenario_lower) = Inr None"
    by (rule validate_reply_envelope)
  have "strip scenario_lower = scenario_lower"
    by (simp add: scenario_lower_def strip_def is_space_def NL_def)
  then have h4: "get_content (reply_envelope scenario_lower) = Inr scenario_lower"
    by (simp add: get_content_reply_envelope)
  have h5: "clean_response scenario_lower = scenario_lower"
    by (simp add: clean_response_def after_think_def scenario_lower_def strip_def is_space_def NL_def CR_def)
  have h6: "has_required_fields (clean_response scenario_lower)"
    unfolding h5 by (simp add: has_required_fields_def required_fields_def scenario_lower_def NL_def)
  have l: "content_lines (clean_response scenario_lower) =
      [''SUMMARY: Hello'', ''RISK_LEVEL: low'', ''RISK_DETAILS: ok'']"
    unfolding h5
    by (simp add: content_lines_def scenario_lower_def split_def strip_def is_space_def NL_def)
  have v1: "spec_final_value ''RISK_LEVEL:'' ''UNKNOWN'' (content_lines (clean_response scenario_lower)) = ''low''"
    unfolding l by (simp add: spec_final_value_def spec_field_matches_def strip_def is_space_def)
  have v2: "spec_final_value ''RISK_DETAILS:'' ''No details provided''
      (content_lines (clean_response scenario_lower)) = ''ok''"
    unfolding l by (simp add: spec_final_value_def spec_field_matches_def strip_def is_space_def)
  have n: "''low'' \<notin> set [''LOW'', ''MEDIUM'', ''HIGH'', ''UNKNOWN'']" by simp
  have m: "''HIGH'' \<in> set [''LOW'', ''MEDIUM'', ''HIGH'', ''UNKNOWN'']" by simp
  from risk_level_coerced [of "''low''"] n have c1: "check_risk_level ''low'' = ''UNKNOWN''"
    by blast
  from risk_level_coerced [of "''HIGH''"] m have c2: "check_risk_level ''HIGH'' = ''HIGH''"
    by blast
  from risk_level_coerced [of _ "answering scenario_lower" example_email r
      "reply_envelope scenario_lower" scenario_lower] h1 h2 h3 h4 h6
  have "status (snd (summarize_email (answering scenario_lower) example_email)) = ''success''
      \<and> risk_assessment (snd (summarize_email (answering scenario_lower) example_email)) =
          check_risk_level (spec_final_value ''RISK_LEVEL:'' ''UNKNOWN''
                              (content_lines (clean_response scenario_lower)))
          @ '' - ''
          @ spec_final_value ''RISK_DETAILS:'' ''No details provided''
              (content_lines (clean_response scenario_lower))"
    by blast
  then have s: "status (snd (summarize_email (answering scenario_lower) example_email)) = ''success''"
    and ra: "risk_assessment (snd (summarize_email (answering scenario_lower) example_email)) =
       ''UNKNOWN - ok''"
    by (simp_all add: v1 v2 c1)
  from n c1 m c2 h6 v1 s ra show ?thesis by (intro conjI)
qed

section \<open>Shapes of the returned outcome\<close>

lemma on_response_other_status: "status_code r \<noteq> 200 \<Longrightarrow> on_response scanned r = Inr (api_error r)"
  by (simp add: on_response_def)

lemma on_response_json_raises:
  "status_code r = 200 \<Longrightarrow> resp_json r = Inl e \<Longrightarrow> on_response scanned r = Inl e"
  by (simp add: on_response_def)

lemma on_response_validate_raises:
  "status_code r = 200 \<Longrightarrow> resp_json r = Inr result \<Longrightarrow> validate_response result = Inl p \<Longrightarrow>
   on_response scanned r = Inl (Interp p)"
  by (simp add: on_response_def)

lemma on_response_rejected:
  "status_code r = 200 \<Longrightarrow> resp_json r = Inr result \<Longrightarrow> validate_response result = Inr (Some m) \<Longrightarrow>
   on_response scanned r = Inr (error_response m)"
  using validate_response_message [of result m] by (simp add: on_response_def)

lemma on_response_content_raises:
  "status_code r = 200 \<Longrightarrow> resp_json r = Inr result \<Longrightarrow> validate_response result = Inr None \<Longrightarrow>
   get_content result = Inl p \<Longrightarrow> on_response scanned r = Inl (Interp p)"
  by (simp add: on_response_def)

text \<open>
  C8 (as amended). A successfully parsed assessment is returned with status \<open>success\<close>
  and \<open>risk_assessment\<close> equal to the risk level, \<open> - \<close> and the risk details. Every
  failure is returned with status \<open>error\<close> and a message naming it; summary and
  \<open>risk_assessment\<close> are empty for an exception, a status other than 200 and a rejected
  envelope, and are the placeholders \<open>Error: Invalid response format\<close> and
  \<open>UNKNOWN - Response format error\<close> when the reply lacks a required field.
\<close>

theorem outcome_shapes:
  "(post E (build_payload email) = Inr r \<and> status_code r = 200 \<and> resp_json r = Inr result
      \<and> validate_response result = Inr None \<and> get_content result = Inr raw
      \<and> has_required_fields (clean_response raw)
    \<longrightarrow> status (snd (summarize_email E email)) = ''success''
        \<and> error (snd (summarize_email E email)) = None
        \<and> risk_assessment (snd (summarize_email E email)) =
            check_risk_level (spec_final_value ''RISK_LEVEL:'' ''UNKNOWN''
                                (content_lines (clean_response raw)))
            @ '' - ''
            @ spec_final_value ''RISK_DETAILS:'' ''No details provided''
                (content_lines (clean_response raw))
        \<and> link_scan_results (snd (summarize_email E email)) =
            Some (scan_links (validators E) (extract_links (body email))))
   \<and> (post E (build_payload email) = Inl e
    \<longrightarrow> snd (summarize_email E email) = error_response (''Request failed: '' @ str_exn E e))
   \<and> (post E (build_payload email) = Inr r \<and> status_code r \<noteq> 200
    \<longrightarrow> snd (summarize_email E email) =
          error_response (''API Error: '' @ str_int (status_code r) @ '' - '' @ resp_text r))
   \<and> (post E (build_payload email) = Inr r \<and> status_code r = 200 \<and> resp_json r = Inl e
    \<longrightarrow> snd (summarize_email E email) = error_response (''Request failed: '' @ str_exn E e))
   \<and> (post E (build_payload email) = Inr r \<and> status_code r = 200 \<and> resp_json r = Inr result
      \<and> validate_response result = Inl p
    \<longrightarrow> snd (summarize_email E email) = error_response (''Request failed: '' @ exc_text E p))
   \<and> (post E (build_payload email) = Inr r \<and> status_code r = 200 \<and> resp_json r = Inr result
      \<and> validate_response result = Inr (Some m)
    \<longrightarrow> snd (summarize_email E email) = error_response m)
   \<and> (post E (build_payload email) = Inr r \<and> status_code r = 200 \<and> resp_json r = Inr result
      \<and> validate_response result = Inr None \<and> get_content result = Inl p
    \<longrightarrow> snd (summarize_email E email) = error_response (''Request failed: '' @ exc_text E p))
   \<and> (post E (build_payload email) = Inr r \<and> status_code r = 200 \<and> resp_json r = Inr result
      \<and> validate_response result = Inr None \<and> get_content result = Inr raw
      \<and> \<not> has_required_fields (clean_response raw)
    \<longrightarrow> snd (summarize_email E email) =
          \<lparr>summary = ''Error: Invalid response format'', status = ''error'',
           risk_assessment = ''UNKNOWN - Response format error'',
           error = Some ''API response missing required fields'', link_scan_results = None\<rparr>)
   \<and> summary (error_response m) = [] \<and> status (error_response m) = ''error''
   \<and> risk_assessment (error_response m) = [] \<and> error (error_response m) = Some m"
proof -
  have s: "status (snd (summarize_email E email)) = ''success''
        \<and> error (snd (summarize_email E email)) = None
        \<and> risk_assessment (snd (summarize_email E email)) =
            check_risk_level (spec_final_value ''RISK_LEVEL:'' ''UNKNOWN''
                                (content_lines (clean_response raw)))
            @ '' - ''
            @ spec_final_value ''RISK_DETAILS:'' ''No details provided''
                (content_lines (clean_response raw))
        \<and> link_scan_results (snd (summarize_email E email)) =
            Some (scan_links (validators E) (extract_links (body email)))"
    if "post E (build_payload email) = Inr r" "status_code r = 200" "resp_json r = Inr result"
      "validate_response result = Inr None" "get_content result = Inr raw"
      "has_required_fields (clean_response raw)"
    using summarize_email_success [OF that] by simp
  have f1: "snd (summarize_email E email) = error_response (''Request failed: '' @ str_exn E e)"
    if "post E (build_payload email) = Inl e"
    using that by (simp add: summarize_email_unfold request_failed_def)
  have f2: "snd (summarize_email E email) =
      error_response (''API Error: '' @ str_int (status_code r) @ '' - '' @ resp_text r)"
    if "post E (build_payload email) = Inr r" "status_code r \<noteq> 200"
    using that by (simp add: summarize_email_unfold on_response_other_status api_error_def)
  have f3: "snd (summarize_email E email) = error_response (''Request failed: '' @ str_exn E e)"
    if "post E (build_payload email) = Inr r" "status_code r = 200" "resp_json r = Inl e"
    using that by (simp add: summarize_email_unfold on_response_json_raises request_failed_def)
  have f4: "snd (summarize_email E email) = error_response (''Request failed: '' @ exc_text E p)"
    if "post E (build_payload email) = Inr r" "status_code r = 200" "resp_json r = Inr result"
      "validate_response result = Inl p"
    using that
    by (simp add: summarize_email_unfold on_response_validate_raises request_failed_def str_exn_def)
  have f5: "snd (summarize_email E email) = error_response m"
    if "post E (build_payload email) = Inr r" "status_code r = 200" "resp_json r = Inr result"
      "validate_response result = Inr (Some m)"
    using that by (simp add: summarize_email_unfold on_response_rejected)
  have f6: "snd (summarize_email E email) = error_response (''Request failed: '' @ exc_text E p)"
    if "post E (build_payload email) = Inr r" "status_code r = 200" "resp_json r = Inr result"
      "validate_response result = Inr None" "get_content result = Inl p"
    using that
    by (simp add: summarize_email_unfold on_response_content_raises request_failed_def str_exn_def)
  have f7: "snd (summarize_email E email) =
          \<lparr>summary = ''Error: Invalid response format'', status = ''error'',
           risk_assessment = ''UNKNOWN - Response format error'',
           error = Some ''API response missing required fields'', link_scan_results = None\<rparr>"
    if "post E (build_payload email) = Inr r" "status_code r = 200" "resp_json r = Inr result"
      "validate_response result = Inr None" "get_content result = Inr raw"
      "\<not> has_required_fields (clean_response raw)"
    using summarize_email_content [OF that(1-5)] parse_content_missing [OF that(6)]
    by (simp add: missing_fields_response_def)
  have i0: "post E (build_payload email) = Inr r \<and> status_code r = 200 \<and> resp_json r = Inr result
      \<and> validate_response result = Inr None \<and> get_content result = Inr raw
      \<and> has_required_fields (clean_response raw)
    \<longrightarrow> status (snd (summarize_email E email)) = ''success''
        \<and> error (snd (summarize_email E email)) = None
        \<and> risk_assessment (snd (summarize_email E email)) =
            check_risk_level (spec_final_value ''RISK_LEVEL:'' ''UNKNOWN''
                                (content_lines (clean_response raw)))
            @ '' - ''
            @ spec_final_value ''RISK_DETAILS:'' ''No details provided''
                (content_lines (clean_response raw))
        \<and> link_scan_results (snd (summarize_email E email)) =
            Some (scan_links (validators E) (extract_links (body email)))"
    using s by blast
  have i1: "post E (build_payload email) = Inl e
    \<longrightarrow> snd (summarize_email E email) = error_response (''Request failed: '' @ str_exn E e)"
    using f1 by blast
  have i2: "post E (build_payload email) = Inr r \<and> status_code r \<noteq> 200
    \<longrightarrow> snd (summarize_email E email) =
          error_response (''API Error: '' @ str_int (status_code r) @ '' - '' @ resp_text r)"
    using f2 by blast
  have i3: "post E (build_payload email) = Inr r \<and> status_code r = 200 \<and> resp_json r = Inl e
    \<longrightarrow> snd (summarize_email E email) = error_response (''Request failed: '' @ str_exn E e)"
    using f3 by blast
  have i4: "post E (build_payload email) = Inr r \<and> status_code r = 200 \<and> resp_json r = Inr result
      \<and> validate_response result = Inl p
    \<longrightarrow> snd (summarize_email E email) = error_response (''Request failed: '' @ exc_text E p)"
    using f4 by blast
  have i5: "post E (build_payload email) = Inr r \<and> status_code r = 200 \<and> resp_json r = Inr result
      \<and> validate_response result = Inr (Some m)
    \<longrightarrow> snd (summarize_email E email) = error_response m"
    using f5 by blast
  have i6: "post E (build_payload email) = Inr r \<and> status_code r = 200 \<and> resp_json r = Inr result
      \<and> validate_response result = Inr None \<and> get_content result = Inl p
    \<longrightarrow> snd (summarize_email E email) = error_response (''Request failed: '' @ exc_text E p)"
    using f6 by blast
  have i7: "post E (build_payload email) = Inr r \<and> status_code r = 200 \<and> resp_json r = Inr result
      \<and> validate_response result = Inr None \<and> get_content result = Inr raw
      \<and> \<not> has_required_fields (clean_response raw)
    \<longrightarrow> snd (summarize_email E email) =
          \<lparr>summary = ''Error: Invalid response format'', status = ''error'',
           risk_assessment = ''UNKNOWN - Response format error'',
           error = Some ''API response missing required fields'', link_scan_results = None\<rparr>"
    using f7 by blast
  have g: "summary (error_response m) = []" "status (error_response m) = ''error''"
    "risk_assessment (error_response m) = []" "error (error_response m) = Some m"
    by (simp_all add: error_response_def)
  from i0 i1 i2 i3 i4 i5 i6 i7 g show ?thesis by (intro conjI)
qed

section \<open>The handlers case by case\<close>

lemma parse_content_normal:
  "parse_content scanned content =
     Inr (if has_required_fields content then success_response scanned content
          else missing_fields_response)"
  using parse_content_ok [of content scanned] parse_content_missing [of content scanned]
  by (simp add: success_response_def)

lemma summarize_email_normal:
  "snd (summarize_email E email) =
     (case post E (build_payload email) of
        Inl e \<Rightarrow> request_failed E e
      | Inr r \<Rightarrow>
          if status_code r \<noteq> 200 then api_error r
          else
            (case resp_json r of
               Inl e \<Rightarrow> request_failed E e
             | Inr result \<Rightarrow>
                 (case validate_response result of
                    Inl p \<Rightarrow> request_failed E (Interp p)
                  | Inr (Some m) \<Rightarrow> error_response m
                  | Inr None \<Rightarrow>
                      (case get_content result of
                         Inl p \<Rightarrow> request_failed E (Interp p)
                       | Inr raw \<Rightarrow>
                           if has_required_fields (clean_response raw)
                           then success_response
                                  (Some (scan_links (validators E) (extract_links (body email))))
                                  (clean_response raw)
                           else missing_fields_response))))"
proof (cases "post E (build_payload email)")
  case (Inl e)
  then show ?thesis by (simp add: summarize_email_unfold)
next
  case (Inr r)
  note post = Inr
  show ?thesis
  proof (cases "status_code r = 200")
    case False
    with post show ?thesis by (simp add: summarize_email_unfold on_response_other_status)
  next
    case True
    note ok = True
    show ?thesis
    proof (cases "resp_json r")
      case (Inl e)
      with post ok show ?thesis by (simp add: summarize_email_unfold on_response_json_raises)
    next
      case (Inr result)
      note js = Inr
      show ?thesis
      proof (cases "validate_response result")
        case (Inl p)
        with post ok js show ?thesis
          by (simp add: summarize_email_unfold on_response_validate_raises)
      next
        case (Inr verdict)
        show ?thesis
        proof (cases verdict)
          case (Some m)
          with post ok js Inr show ?thesis
            by (simp add: summarize_email_unfold on_response_rejected)
        next
          case None
          with Inr have v: "validate_response result = Inr None" by simp
          show ?thesis
          proof (cases "get_content result")
            case (Inl p)
            with post ok js v show ?thesis
              by (simp add: summarize_email_unfold on_response_content_raises)
          next
            case (Inr raw)
            with post ok js v summarize_email_content [OF post ok js v Inr] show ?thesis
              by (simp add: parse_content_normal)
          qed
        qed
      qed
    qed
  qed
qed

lemma sample_summarize_email_normal:
  "snd (sample_summarize_email E email) =
     (case post E (sample_payload email) of
        Inl e \<Rightarrow> sample_failed E e
      | Inr r \<Rightarrow>
          if status_code r \<noteq> 200 then api_error r
          else
            (case resp_json r of
               Inl e \<Rightarrow> sample_failed E e
             | Inr result \<Rightarrow>
                 (case get_content result of
                    Inl p \<Rightarrow> sample_failed E (Interp p)
                  | Inr raw \<Rightarrow>
                      if clean_response raw = [] then empty_response
                      else if has_required_fields (clean_response raw)
                      then success_response None (clean_response raw)
                      else missing_fields_response)))"
  by (simp add: sample_summarize_email_def sample_on_response_def Let_def parse_content_normal
      split: sum.splits)

lemma success_response_status: "status (success_response scanned content) = ''success''"
  by (simp add: success_response_def)

lemma summarize_email_total:
  "status (snd (summarize_email E email)) = ''success''
   \<or> is_error_outcome (snd (summarize_email E email))"
  unfolding summarize_email_normal
  by (auto split: sum.splits option.splits
      simp: request_failed_outcome api_error_outcome missing_fields_outcome success_response_status
        error_response_outcome validate_response_message)

lemma sample_summarize_email_total:
  "status (snd (sample_summarize_email E email)) = ''success''
   \<or> is_error_outcome (snd (sample_summarize_email E email))"
  unfolding sample_summarize_email_normal
  by (auto split: sum.splits option.splits
      simp: sample_failed_outcome api_error_outcome missing_fields_outcome success_response_status
        empty_outcome)

section \<open>Failures become error outcomes\<close>

text \<open>
  C2. Whatever goes wrong while an inquiry is handled, the handlers of main.py and
  sampleSummary.py return a response with status \<open>error\<close> and a non-empty error
  message: an exception of \<open>session.post\<close> (transport failure, timeout, exhausted
  retries), a status other than 200, a body that is not JSON, an envelope that is
  rejected or on which an access raises, a content that is empty (sampleSummary.py) or
  lacks a required field. Both handlers return a response in every case, with status
  \<open>success\<close> or as such an error outcome; in the model an exception is a value \<open>Inl\<close>
  inside the \<open>try\<close> body, and none is left in the handler's result.
\<close>

theorem failures_are_error_outcomes:
  "(post E (build_payload email) = Inl e
      \<longrightarrow> is_error_outcome (snd (summarize_email E email)))
   \<and> (post E (build_payload email) = Inr r \<and> status_code r \<noteq> 200
      \<longrightarrow> is_error_outcome (snd (summarize_email E email)))
   \<and> (post E (build_payload email) = Inr r \<and> status_code r = 200 \<and> resp_json r = Inl e
      \<longrightarrow> is_error_outcome (snd (summarize_email E email)))
   \<and> (post E (build_payload email) = Inr r \<and> status_code r = 200 \<and> resp_json r = Inr result
        \<and> validate_response result \<noteq> Inr None
      \<longrightarrow> is_error_outcome (snd (summarize_email E email)))
   \<and> (post E (build_payload email) = Inr r \<and> status_code r = 200 \<and> resp_json r = Inr result
        \<and> validate_response result = Inr None \<and> get_content result = Inl p
      \<longrightarrow> is_error_outcome (snd (summarize_email E email)))
   \<and> (post E (build_payload email) = Inr r \<and> status_code r = 200 \<and> resp_json r = Inr result
        \<and> validate_response result = Inr None \<and> get_content result = Inr raw
        \<and> \<not> has_required_fields (clean_response raw)
      \<longrightarrow> is_error_outcome (snd (summarize_email E email)))
   \<and> (status (snd (summarize_email E email)) = ''success''
        \<or> is_error_outcome (snd (summarize_email E email)))
   \<and> (post E (sample_payload email) = Inl e
      \<longrightarrow> is_error_outcome (snd (sample_summarize_email E email)))
   \<and> (post E (sample_payload email) = Inl (Timeout connect m)
      \<longrightarrow> error (snd (sample_summarize_email E email)) =
            Some ((if connect then ''Connection'' else ''Read'')
                  @ '' timeout occurred. Please try again.''))
   \<and> (post E (sample_payload email) = Inl (RetryError m)
      \<longrightarrow> error (snd (sample_summarize_email E email)) =
            Some ''Service temporarily unavailable. Please try again later.'')
   \<and> (post E (sample_payload email) = Inr r \<and> status_code r \<noteq> 200
      \<longrightarrow> is_error_outcome (snd (sample_summarize_email E email)))
   \<and> (post E (sample_payload email) = Inr r \<and> status_code r = 200 \<and> resp_json r = Inl e
      \<longrightarrow> is_error_outcome (snd (sample_summarize_email E email)))
   \<and> (post E (sample_payload email) = Inr r \<and> status_code r = 200 \<and> resp_json r = Inr result
        \<and> get_content result = Inl p
      \<longrightarrow> is_error_outcome (snd (sample_summarize_email E email)))
   \<and> (post E (sample_payload email) = Inr r \<and> status_code r = 200 \<and> resp_json r = Inr result
        \<and> get_content result = Inr raw \<and> \<not> has_required_fields (clean_response raw)
      \<longrightarrow> is_error_outcome (snd (sample_summarize_email E email)))
   \<and> (status (snd (sample_summarize_email E email)) = ''success''
        \<or> is_error_outcome (snd (sample_summarize_email E email)))"
proof -
  note out = request_failed_outcome api_error_outcome missing_fields_outcome
    error_response_outcome validate_response_message sample_failed_outcome empty_outcome
  have a1: "post E (build_payload email) = Inl e
      \<longrightarrow> is_error_outcome (snd (summarize_email E email))"
    by (simp add: summarize_email_normal out)
  have a2: "post E (build_payload email) = Inr r \<and> status_code r \<noteq> 200
      \<longrightarrow> is_error_outcome (snd (summarize_email E email))"
    by (simp add: summarize_email_normal out)
  have a3: "post E (build_payload email) = Inr r \<and> status_code r = 200 \<and> resp_json r = Inl e
      \<longrightarrow> is_error_outcome (snd (summarize_email E email))"
    by (simp add: summarize_email_normal out)
  have a4: "post E (build_payload email) = Inr r \<and> status_code r = 200 \<and> resp_json r = Inr result
        \<and> validate_response result \<noteq> Inr None
      \<longrightarrow> is_error_outcome (snd (summarize_email E email))"
    by (auto simp: summarize_email_normal out split: sum.splits option.splits)
  have a5: "post E (build_payload email) = Inr r \<and> status_code r = 200 \<and> resp_json r = Inr result
        \<and> validate_response result = Inr None \<and> get_content result = Inl p
      \<longrightarrow> is_error_outcome (snd (summarize_email E email))"
    by (simp add: summarize_email_normal out)
  have a6: "post E (build_payload email) = Inr r \<and> status_code r = 200 \<and> resp_json r = Inr result
        \<and> validate_response result = Inr None \<and> get_content result = Inr raw
        \<and> \<not> has_required_fields (clean_response raw)
      \<longrightarrow> is_error_outcome (snd (summarize_email E email))"
    by (simp add: summarize_email_normal out)
  have b1: "post E (sample_payload email) = Inl e
      \<longrightarrow> is_error_outcome (snd (sample_summarize_email E email))"
    by (simp add: sample_summarize_email_normal out)
  have b2: "post E (sample_payload email) = Inl (Timeout connect m)
      \<longrightarrow> error (snd (sample_summarize_email E email)) =
            Some ((if connect then ''Connection'' else ''Read'')
                  @ '' timeout occurred. Please try again.'')"
    by (simp add: sample_summarize_email_normal sample_failed_def error_response_def)
  have b3: "post E (sample_payload email) = Inl (RetryError m)
      \<longrightarrow> error (snd (sample_summarize_email E email)) =
            Some ''Service temporarily unavailable. Please try again later.''"
    by (simp add: sample_summarize_email_normal sample_failed_def error_response_def)
  have b4: "post E (sample_payload email) = Inr r \<and> status_code r \<noteq> 200
      \<longrightarrow> is_error_outcome (snd (sample_summarize_email E email))"
    by (simp add: sample_summarize_email_normal out)
  have b5: "post E (sample_payload email) = Inr r \<and> status_code r = 200 \<and> resp_json r = Inl e
      \<longrightarrow> is_error_outcome (snd (sample_summarize_email E email))"
    by (simp add: sample_summarize_email_normal out)
  have b6: "post E (sample_payload email) = Inr r \<and> status_code r = 200 \<and> resp_json r = Inr result
        \<and> get_content result = Inl p
      \<longrightarrow> is_error_outcome (snd (sample_summarize_email E email))"
    by (simp add: sample_summarize_email_normal out)
  have b7: "post E (sample_payload email) = Inr r \<and> status_code r = 200 \<and> resp_json r = Inr result
        \<and> get_content result = Inr raw \<and> \<not> has_required_fields (clean_response raw)
      \<longrightarrow> is_error_outcome (snd (sample_summarize_email E email))"
    by (simp add: sample_summarize_email_normal out)
  from a1 a2 a3 a4 a5 a6 summarize_email_total [of E email]
    b1 b2 b3 b4 b5 b6 b7 sample_summarize_email_total [of E email]
  show ?thesis by (intro conjI)
qed

lemma scenario_C_clean:
  "get_content (reply_envelope scenario_C) = Inr scenario_C"
  "clean_response scenario_C = scenario_C"
  "\<not> has_required_fields scenario_C"
proof -
  have "strip scenario_C = scenario_C"
    by (simp add: scenario_C_def strip_def is_space_def NL_def)
  then show "get_content (reply_envelope scenario_C) = Inr scenario_C"
    by (simp add: get_content_reply_envelope)
  show "clean_response scenario_C = scenario_C"
    by (simp add: clean_response_def after_think_def scenario_C_def strip_def is_space_def
        NL_def CR_def)
  show "\<not> has_required_fields scenario_C"
    by (simp add: has_required_fields_def required_fields_def scenario_C_def NL_def)
qed

lemma fixture_envelopes:
  "validate_response number_choice = Inl (TypeError (JNum 3))"
  "validate_response no_choices = Inr (Some ''The 'choices' list is empty.'')"
  "validate_response number_content = Inr None"
  "get_content number_content = Inl (AttributeError (JNum 1))"
  by (simp_all add: validate_response_def number_choice_def no_choices_def number_content_def
      py_in_def getitem_def getitem0_def get_content_def py_strip_def)

theorem failures_are_error_outcomes_witness:
  "post (raising refused) (build_payload example_email) = Inl refused
   \<and> is_error_outcome (snd (summarize_email (raising refused) example_email))
   \<and> status_code busy_response \<noteq> 200
   \<and> is_error_outcome (snd (summarize_email (responding busy_response) example_email))
   \<and> resp_json garbled_response = Inl (OtherException ''Expecting value'')
   \<and> is_error_outcome (snd (summarize_email (responding garbled_response) example_email))
   \<and> validate_response number_choice \<noteq> Inr None
   \<and> is_error_outcome (snd (summarize_email (responding (ok_response number_choice)) example_email))
   \<and> get_content number_content = Inl (AttributeError (JNum 1))
   \<and> is_error_outcome (snd (summarize_email (responding (ok_response number_content)) example_email))
   \<and> \<not> has_required_fields (clean_response scenario_C)
   \<and> is_error_outcome (snd (summarize_email (answering scenario_C) example_email))
   \<and> post (raising read_timeout) (sample_payload example_email) = Inl (Timeout False ''Read timed out.'')
   \<and> error (snd (sample_summarize_email (raising read_timeout) example_email)) =
       Some ''Read timeout occurred. Please try again.''
   \<and> is_error_outcome (snd (sample_summarize_email (responding busy_response) example_email))
   \<and> is_error_outcome (snd (sample_summarize_email (answering scenario_C) example_email))"
proof -
  have p1: "post (raising refused) (build_payload example_email) = Inl refused"
    by (rule raising_post)
  from failures_are_error_outcomes [where E = "raising refused" and email = example_email
      and e = refused] p1
  have w1: "is_error_outcome (snd (summarize_email (raising refused) example_email))" by blast
  have p2: "post (responding busy_response) (build_payload example_email) = Inr busy_response"
    "status_code busy_response \<noteq> 200"
    by (simp_all add: responding_post busy_response_def)
  from failures_are_error_outcomes [where E = "responding busy_response" and email = example_email
      and r = busy_response] p2
  have w2: "is_error_outcome (snd (summarize_email (responding busy_response) example_email))"
    by blast
  have p3: "post (responding garbled_response) (build_payload example_email) = Inr garbled_response"
    "status_code garbled_response = 200"
    "resp_json garbled_response = Inl (OtherException ''Expecting value'')"
    by (simp_all add: responding_post garbled_response_def)
  from failures_are_error_outcomes [where E = "responding garbled_response"
      and email = example_email and r = garbled_response and e = "OtherException ''Expecting value''"] p3
  have w3: "is_error_outcome (snd (summarize_email (responding garbled_response) example_email))"
    by blast
  have p4: "post (responding (ok_response number_choice)) (build_payload example_email) =
      Inr (ok_response number_choice)"
    "status_code (ok_response number_choice) = 200"
    "resp_json (ok_response number_choice) = Inr number_choice"
    "validate_response number_choice \<noteq> Inr None"
    by (simp_all add: responding_post ok_response_def fixture_envelopes)
  from failures_are_error_outcomes [where E = "responding (ok_response number_choice)"
      and email = example_email and r = "ok_response number_choice" and result = number_choice] p4
  have w4: "is_error_outcome
      (snd (summarize_email (responding (ok_response number_choice)) example_email))"
    by blast
  have p5: "post (responding (ok_response number_content)) (build_payload example_email) =
      Inr (ok_response number_content)"
    "status_code (ok_response number_content) = 200"
    "resp_json (ok_response number_content) = Inr number_content"
    "validate_response number_content = Inr None"
    "get_content number_content = Inl (AttributeError (JNum 1))"
    by (simp_all add: responding_post ok_response_def fixture_envelopes)
  from failures_are_error_outcomes [where E = "responding (ok_response number_content)"
      and email = example_email and r = "ok_response number_content" and result = number_content
      and p = "AttributeError (JNum 1)"] p5
  have w5: "is_error_outcome
      (snd (summarize_email (responding (ok_response number_content)) example_email))"
    by blast
  have p6: "post (answering scenario_C) (build_payload example_email) =
      Inr (ok_response (reply_envelope scenario_C))"
    "status_code (ok_response (reply_envelope scenario_C)) = 200"
    "resp_json (ok_response (reply_envelope scenario_C)) = Inr (reply_envelope scenario_C)"
    "validate_response (reply_envelope scenario_C) = Inr None"
    "get_content (reply_envelope scenario_C) = Inr scenario_C"
    "\<not> has_required_fields (clean_response scenario_C)"
    by (simp_all add: answering_post ok_response_def validate_reply_envelope scenario_C_clean)
  from failures_are_error_outcomes [where E = "answering scenario_C" and email = example_email
      and r = "ok_response (reply_envelope scenario_C)" and result = "reply_envelope scenario_C"
      and raw = scenario_C] p6
  have w6: "is_error_outcome (snd (summarize_email (answering scenario_C) example_email))"
    by blast
  have p7: "post (raising read_timeout) (sample_payload example_email) =
      Inl (Timeout False ''Read timed out.'')"
    by (simp add: raising_post read_timeout_def)
  from failures_are_error_outcomes [where E = "raising read_timeout" and email = example_email
      and connect = False and m = "''Read timed out.''"] p7
  have "error (snd (sample_summarize_email (raising read_timeout) example_email)) =
      Some ((if False then ''Connection'' else ''Read'') @ '' timeout occurred. Please try again.'')"
    by blast
  then have w7: "error (snd (sample_summarize_email (raising read_timeout) example_email)) =
      Some ''Read timeout occurred. Please try again.''"
    by simp
  have p8: "post (responding busy_response) (sample_payload example_email) = Inr busy_response"
    by (rule responding_post)
  from failures_are_error_outcomes [where E = "responding busy_response" and email = example_email
      and r = busy_response] p8 p2(2)
  have w8: "is_error_outcome (snd (sample_summarize_email (responding busy_response) example_email))"
    by blast
  have p9: "post (answering scenario_C) (sample_payload example_email) =
      Inr (ok_response (reply_envelope scenario_C))"
    by (rule answering_post)
  from failures_are_error_outcomes [where E = "answering scenario_C" and email = example_email
      and r = "ok_response (reply_envelope scenario_C)" and result = "reply_envelope scenario_C"
      and raw = scenario_C] p9 p6(2-6)
  have w9: "is_error_outcome (snd (sample_summarize_email (answering scenario_C) example_email))"
    by blast
  from p1 w1 p2(2) w2 p3(3) w3 p4(4) w4 p5(5) w5 p6(6) w6 p7 w7 w8 w9
  show ?thesis by (intro conjI)
qed

section \<open>Empty fields and empty replies\<close>

lemma scenario_A_parsed:
  "get_content (reply_envelope scenario_A) = Inr scenario_A"
  "clean_response scenario_A = scenario_A"
  "has_required_fields scenario_A"
  "success_response scanned scenario_A =
     \<lparr>summary = ''Invoice reminder'', status = ''success'',
      risk_assessment = ''LOW - Routine business email'', error = None,
      link_scan_results = scanned\<rparr>"
proof -
  have "strip scenario_A = scenario_A"
    by (simp add: scenario_A_def strip_def is_space_def NL_def)
  then show "get_content (reply_envelope scenario_A) = Inr scenario_A"
    by (simp add: get_content_reply_envelope)
  show "clean_response scenario_A = scenario_A"
    by (simp add: clean_response_def after_think_def scenario_A_def strip_def is_space_def
        NL_def CR_def)
  show "has_required_fields scenario_A"
    by (simp add: has_required_fields_def required_fields_def scenario_A_def NL_def)
  have l: "content_lines scenario_A =
      [''SUMMARY: Invoice reminder'', ''RISK_LEVEL: LOW'', ''RISK_DETAILS: Routine business email'']"
    by (simp add: content_lines_def scenario_A_def split_def strip_def is_space_def NL_def)
  show "success_response scanned scenario_A =
     \<lparr>summary = ''Invoice reminder'', status = ''success'',
      risk_assessment = ''LOW - Routine business email'', error = None,
      link_scan_results = scanned\<rparr>"
    unfolding success_response_def l
    by (simp add: spec_final_value_def spec_field_matches_def strip_def is_space_def
        check_risk_level_def)
qed

lemma str_int_503: "str_int 503 = ''503''"
  by code_simp

text \<open>
  A reply without \<open>RISK_LEVEL:\<close> is a failure of the parser, and the response
  returned for it has neither an empty summary nor an empty \<open>risk_assessment\<close>.
\<close>

theorem failure_outcome_not_empty:
  "status (snd (summarize_email (answering scenario_C) example_email)) = ''error''
   \<and> summary (snd (summarize_email (answering scenario_C) example_email)) =
       ''Error: Invalid response format''
   \<and> summary (snd (summarize_email (answering scenario_C) example_email)) \<noteq> []
   \<and> risk_assessment (snd (summarize_email (answering scenario_C) example_email)) =
       ''UNKNOWN - Response format error''
   \<and> risk_assessment (snd (summarize_email (answering scenario_C) example_email)) \<noteq> []"
proof -
  have "snd (summarize_email (answering scenario_C) example_email) = missing_fields_response"
    by (simp add: summarize_email_normal answering_post ok_response_def validate_reply_envelope
        scenario_C_clean)
  then show ?thesis by (simp add: missing_fields_response_def)
qed

text \<open>
  The endpoint of main.py, given an inquiry whose four fields are all empty, sends the
  request to the completion API and reports success.
\<close>

theorem empty_inquiry_is_sent:
  "subject blank_email = [] \<and> sender blank_email = [] \<and> recipient blank_email = []
   \<and> body blank_email = []
   \<and> fst (summarize_email (answering scenario_A) blank_email) = [build_payload blank_email]
   \<and> status (snd (summarize_email (answering scenario_A) blank_email)) = ''success''"
proof -
  have "snd (summarize_email (answering scenario_A) blank_email) =
      success_response (Some (scan_links None (extract_links []))) scenario_A"
    by (simp add: summarize_email_normal answering_post ok_response_def validate_reply_envelope
        scenario_A_parsed answering_def responding_def blank_email_def)
  then show ?thesis
    by (simp add: summarize_email_unfold blank_email_def scenario_A_parsed)
qed

text \<open>
  C7 (as amended). The form handler of app.py rejects every inquiry in which one of the
  four fields is empty before \<open>summarize_email\<close> is called, so no request is issued for
  it; with four non-empty fields it makes the call. The endpoint of main.py has no such
  check: for every inquiry it sends exactly one request to the completion API.
\<close>

theorem empty_fields_rejected_by_form:
  "(subject_in = [] \<or> sender_in = [] \<or> recipient_in = [] \<or> body_in = []
      \<longrightarrow> button_handler call subject_in sender_in recipient_in body_in =
            ([], Inl ''Please fill in all fields''))
   \<and> (subject_in \<noteq> [] \<and> sender_in \<noteq> [] \<and> recipient_in \<noteq> [] \<and> body_in \<noteq> []
      \<longrightarrow> button_handler call subject_in sender_in recipient_in body_in =
            (fst (call \<lparr>subject = subject_in, sender = sender_in, recipient = recipient_in,
                         body = body_in\<rparr>),
             Inr (snd (call \<lparr>subject = subject_in, sender = sender_in, recipient = recipient_in,
                              body = body_in\<rparr>))))
   \<and> fst (summarize_email E email) = [build_payload email]"
  by (auto simp: button_handler_def summarize_email_unfold split: prod.splits)

theorem empty_fields_rejected_by_form_witness:
  "button_handler (summarize_email (raising refused)) [] ''a@example.com'' ''b@example.com'' ''Hello'' =
     ([], Inl ''Please fill in all fields'')
   \<and> fst (button_handler (summarize_email (raising refused))
            ''Hi'' ''a@example.com'' ''b@example.com'' ''Hello'') =
       [build_payload \<lparr>subject = ''Hi'', sender = ''a@example.com'', recipient = ''b@example.com'',
                        body = ''Hello''\<rparr>]
   \<and> fst (summarize_email (raising refused) blank_email) = [build_payload blank_email]"
proof -
  note t = empty_fields_rejected_by_form [where call = "summarize_email (raising refused)"
      and E = "raising refused"]
  from t [of "[]" "''a@example.com''" "''b@example.com''" "''Hello''" blank_email]
  have a: "button_handler (summarize_email (raising refused)) [] ''a@example.com'' ''b@example.com''
      ''Hello'' = ([], Inl ''Please fill in all fields'')"
    by blast
  from t [of "''Hi''" "''a@example.com''" "''b@example.com''" "''Hello''"
      "\<lparr>subject = ''Hi'', sender = ''a@example.com'', recipient = ''b@example.com'',
        body = ''Hello''\<rparr>"]
  have b: "fst (button_handler (summarize_email (raising refused))
            ''Hi'' ''a@example.com'' ''b@example.com'' ''Hello'') =
       [build_payload \<lparr>subject = ''Hi'', sender = ''a@example.com'', recipient = ''b@example.com'',
                        body = ''Hello''\<rparr>]"
    by simp
  from t [of "[]" "[]" "[]" "[]" blank_email]
  have c: "fst (summarize_email (raising refused) blank_email) = [build_payload blank_email]"
    by blast
  from a b c show ?thesis by (intro conjI)
qed

text \<open>
  C9. A reply whose cleaned content is empty: the handler of sampleSummary.py checks for
  it before the required-field check and returns the empty-response outcome; the handler
  of main.py has no such check and returns the missing-fields outcome.
\<close>

theorem empty_content_outcomes:
  "clean_response [] = []
   \<and> snd (summarize_email (answering []) example_email) = missing_fields_response
   \<and> error (snd (summarize_email (answering []) example_email)) =
       Some ''API response missing required fields''
   \<and> snd (sample_summarize_email (answering []) example_email) = empty_response
   \<and> error (snd (sample_summarize_email (answering []) example_email)) =
       Some ''API returned empty or invalid response''"
proof -
  have c: "clean_response [] = []"
    by (simp add: clean_response_def after_think_def strip_def)
  have g: "get_content (reply_envelope []) = Inr []"
    by (simp add: get_content_reply_envelope strip_def)
  have n: "\<not> has_required_fields []"
    by (simp add: has_required_fields_def required_fields_def)
  have m: "snd (summarize_email (answering []) example_email) = missing_fields_response"
    by (simp add: summarize_email_normal answering_post ok_response_def validate_reply_envelope
        g c n)
  have s: "snd (sample_summarize_email (answering []) example_email) = empty_response"
    by (simp add: sample_summarize_email_normal answering_post ok_response_def g c)
  from c m s show ?thesis by (simp add: missing_fields_response_def empty_response_def)
qed

theorem outcome_shapes_witness:
  "has_required_fields (clean_response scenario_A)
   \<and> status (snd (summarize_email (answering scenario_A) example_email)) = ''success''
   \<and> risk_assessment (snd (summarize_email (answering scenario_A) example_email)) =
       ''LOW - Routine business email''
   \<and> link_scan_results (snd (summarize_email (answering scenario_A) example_email)) =
       Some [(''http://example.com/pay'', ''UNKNOWN'')]
   \<and> snd (summarize_email (raising refused) example_email) =
       error_response ''Request failed: Connection refused''
   \<and> snd (summarize_email (responding busy_response) example_email) =
       error_response ''API Error: 503 - busy''
   \<and> snd (summarize_email (responding garbled_response) example_email) =
       error_response ''Request failed: Expecting value''
   \<and> snd (summarize_email (responding (ok_response number_choice)) example_email) =
       error_response ''Request failed: exception''
   \<and> snd (summarize_email (responding (ok_response no_choices)) example_email) =
       error_response ''The 'choices' list is empty.''
   \<and> snd (summarize_email (responding (ok_response number_content)) example_email) =
       error_response ''Request failed: exception''
   \<and> \<not> has_required_fields (clean_response scenario_C)
   \<and> snd (summarize_email (answering scenario_C) example_email) =
       \<lparr>summary = ''Error: Invalid response format'', status = ''error'',
        risk_assessment = ''UNKNOWN - Response format error'',
        error = Some ''API response missing required fields'', link_scan_results = None\<rparr>
   \<and> summary (error_response ''Request failed: Connection refused'') = []
   \<and> risk_assessment (error_response ''Request failed: Connection refused'') = []"
proof -
  have q0: "post (answering scenario_A) (build_payload example_email) =
      Inr (ok_response (reply_envelope scenario_A))"
    "status_code (ok_response (reply_envelope scenario_A)) = 200"
    "resp_json (ok_response (reply_envelope scenario_A)) = Inr (reply_envelope scenario_A)"
    "validate_response (reply_envelope scenario_A) = Inr None"
    "get_content (reply_envelope scenario_A) = Inr scenario_A"
    "has_required_fields (clean_response scenario_A)"
    by (simp_all add: answering_post ok_response_def validate_reply_envelope scenario_A_parsed)
  note t0 = outcome_shapes [where E = "answering scenario_A" and email = example_email
      and r = "ok_response (reply_envelope scenario_A)" and result = "reply_envelope scenario_A"
      and raw = scenario_A]
  have g0: "status (snd (summarize_email (answering scenario_A) example_email)) = ''success''
        \<and> error (snd (summarize_email (answering scenario_A) example_email)) = None
        \<and> risk_assessment (snd (summarize_email (answering scenario_A) example_email)) =
            check_risk_level (spec_final_value ''RISK_LEVEL:'' ''UNKNOWN''
                                (content_lines (clean_response scenario_A)))
            @ '' - ''
            @ spec_final_value ''RISK_DETAILS:'' ''No details provided''
                (content_lines (clean_response scenario_A))
        \<and> link_scan_results (snd (summarize_email (answering scenario_A) example_email)) =
            Some (scan_links (validators (answering scenario_A))
                    (extract_links (body example_email)))"
    by (rule t0 [THEN conjunct1, THEN mp]) (intro conjI q0)
  from g0 have s0: "status (snd (summarize_email (answering scenario_A) example_email)) = ''success''"
    by (rule conjunct1)
  from g0 have "risk_assessment (snd (summarize_email (answering scenario_A) example_email)) =
      risk_assessment (success_response None (clean_response scenario_A))"
    by (simp only: success_response_def APIResponse.simps)
  then have r0: "risk_assessment (snd (summarize_email (answering scenario_A) example_email)) =
      ''LOW - Routine business email''"
    by (simp only: scenario_A_parsed APIResponse.simps)
  from g0 have "link_scan_results (snd (summarize_email (answering scenario_A) example_email)) =
      Some (scan_links (validators (answering scenario_A)) (extract_links (body example_email)))"
    by (rule conjunct2 [THEN conjunct2, THEN conjunct2])
  moreover have "extract_links (body example_email) = [''http://example.com/pay'']"
    by (simp add: example_email_def url_match_def is_space_def)
  moreover have "validators (answering scenario_A) = None"
    by (simp add: answering_def responding_def)
  ultimately have l0: "link_scan_results (snd (summarize_email (answering scenario_A) example_email)) =
      Some [(''http://example.com/pay'', ''UNKNOWN'')]"
    by (simp add: scan_links_def scan_link_def)
  have q1: "post (raising refused) (build_payload example_email) = Inl refused"
    by (rule raising_post)
  have "snd (summarize_email (raising refused) example_email) =
      error_response (''Request failed: '' @ str_exn (raising refused) refused)"
    by (rule outcome_shapes [where E = "raising refused" and email = example_email and e = refused,
          THEN conjunct2, THEN conjunct1, THEN mp])
      (rule q1)
  then have w1: "snd (summarize_email (raising refused) example_email) =
      error_response ''Request failed: Connection refused''"
    by (simp add: str_exn_def refused_def)
  have q2: "post (responding busy_response) (build_payload example_email) = Inr busy_response"
    "status_code busy_response \<noteq> 200"
    by (simp_all add: responding_post busy_response_def)
  have "snd (summarize_email (responding busy_response) example_email) =
      error_response (''API Error: '' @ str_int (status_code busy_response) @ '' - ''
        @ resp_text busy_response)"
    by (rule outcome_shapes [where E = "responding busy_response" and email = example_email
          and r = busy_response, THEN conjunct2, THEN conjunct2, THEN conjunct1, THEN mp])
      (intro conjI q2)
  then have w2: "snd (summarize_email (responding busy_response) example_email) =
      error_response ''API Error: 503 - busy''"
    by (simp add: busy_response_def str_int_503)
  have q3: "post (responding garbled_response) (build_payload example_email) = Inr garbled_response"
    "status_code garbled_response = 200"
    "resp_json garbled_response = Inl (OtherException ''Expecting value'')"
    by (simp_all add: responding_post garbled_response_def)
  have "snd (summarize_email (responding garbled_response) example_email) =
      error_response (''Request failed: ''
        @ str_exn (responding garbled_response) (OtherException ''Expecting value''))"
    by (rule outcome_shapes [where E = "responding garbled_response" and email = example_email
          and r = garbled_response and e = "OtherException ''Expecting value''",
          THEN conjunct2, THEN conjunct2, THEN conjunct2, THEN conjunct1, THEN mp])
      (intro conjI q3)
  then have w3: "snd (summarize_email (responding garbled_response) example_email) =
      error_response ''Request failed: Expecting value''"
    by (simp add: str_exn_def)
  have q4: "post (responding (ok_response number_choice)) (build_payload example_email) =
      Inr (ok_response number_choice)"
    "status_code (ok_response number_choice) = 200"
    "resp_json (ok_response number_choice) = Inr number_choice"
    "validate_response number_choice = Inl (TypeError (JNum 3))"
    by (simp_all add: responding_post ok_response_def fixture_envelopes)
  have "snd (summarize_email (responding (ok_response number_choice)) example_email) =
      error_response (''Request failed: ''
        @ exc_text (responding (ok_response number_choice)) (TypeError (JNum 3)))"
    by (rule outcome_shapes [where E = "responding (ok_response number_choice)"
          and email = example_email and r = "ok_response number_choice" and result = number_choice
          and p = "TypeError (JNum 3)",
          THEN conjunct2, THEN conjunct2, THEN conjunct2, THEN conjunct2, THEN conjunct1, THEN mp])
      (intro conjI q4)
  then have w4: "snd (summarize_email (responding (ok_response number_choice)) example_email) =
      error_response ''Request failed: exception''"
    by (simp add: responding_def)
  have q5: "post (responding (ok_response no_choices)) (build_payload example_email) =
      Inr (ok_response no_choices)"
    "status_code (ok_response no_choices) = 200"
    "resp_json (ok_response no_choices) = Inr no_choices"
    "validate_response no_choices = Inr (Some ''The 'choices' list is empty.'')"
    by (simp_all add: responding_post ok_response_def fixture_envelopes)
  have w5: "snd (summarize_email (responding (ok_response no_choices)) example_email) =
      error_response ''The 'choices' list is empty.''"
    by (rule outcome_shapes [where E = "responding (ok_response no_choices)"
          and email = example_email and r = "ok_response no_choices" and result = no_choices
          and m = "''The 'choices' list is empty.''",
          THEN conjunct2, THEN conjunct2, THEN conjunct2, THEN conjunct2, THEN conjunct2,
          THEN conjunct1, THEN mp])
      (intro conjI q5)
  have q6: "post (responding (ok_response number_content)) (build_payload example_email) =
      Inr (ok_response number_content)"
    "status_code (ok_response number_content) = 200"
    "resp_json (ok_response number_content) = Inr number_content"
    "validate_response number_content = Inr None"
    "get_content number_content = Inl (AttributeError (JNum 1))"
    by (simp_all add: responding_post ok_response_def fixture_envelopes)
  have "snd (summarize_email (responding (ok_response number_content)) example_email) =
      error_response (''Request failed: ''
        @ exc_text (responding (ok_response number_content)) (AttributeError (JNum 1)))"
    by (rule outcome_shapes [where E = "responding (ok_response number_content)"
          and email = example_email and r = "ok_response number_content" and result = number_content
          and p = "AttributeError (JNum 1)",
          THEN conjunct2, THEN conjunct2, THEN conjunct2, THEN conjunct2, THEN conjunct2,
          THEN conjunct2, THEN conjunct1, THEN mp])
      (intro conjI q6)
  then have w6: "snd (summarize_email (responding (ok_response number_content)) example_email) =
      error_response ''Request failed: exception''"
    by (simp add: responding_def)
  have q7: "post (answering scenario_C) (build_payload example_email) =
      Inr (ok_response (reply_envelope scenario_C))"
    "status_code (ok_response (reply_envelope scenario_C)) = 200"
    "resp_json (ok_response (reply_envelope scenario_C)) = Inr (reply_envelope scenario_C)"
    "validate_response (reply_envelope scenario_C) = Inr None"
    "get_content (reply_envelope scenario_C) = Inr scenario_C"
    "\<not> has_required_fields (clean_response scenario_C)"
    by (simp_all add: answering_post ok_response_def validate_reply_envelope scenario_C_clean)
  have w7: "snd (summarize_email (answering scenario_C) example_email) =
       \<lparr>summary = ''Error: Invalid response format'', status = ''error'',
        risk_assessment = ''UNKNOWN - Response format error'',
        error = Some ''API response missing required fields'', link_scan_results = None\<rparr>"
    by (rule outcome_shapes [where E = "answering scenario_C" and email = example_email
          and r = "ok_response (reply_envelope scenario_C)" and result = "reply_envelope scenario_C"
          and raw = scenario_C,
          THEN conjunct2, THEN conjunct2, THEN conjunct2, THEN conjunct2, THEN conjunct2,
          THEN conjunct2, THEN conjunct2, THEN conjunct1, THEN mp])
      (intro conjI q7)
  have w8: "summary (error_response ''Request failed: Connection refused'') = []"
    "risk_assessment (error_response ''Request failed: Connection refused'') = []"
    by (simp_all add: error_response_def)
  from q0(6) s0 r0 l0 w1 w2 w3 w4 w5 w6 q7(6) w7 w8 show ?thesis by (intro conjI)
qed

end
